theory Spec2Isabelle
  imports Complex_Main
begin

section \<open>Data model of \<^verbatim>\<open>server/main.py\<close>\<close>

text \<open>
  Python strings are modelled as \<^typ>\<open>string\<close>. A character outside ASCII stands for
  the bytes of its UTF-8 encoding; none of these bytes is a brace, a letter, a digit or
  an underscore, so the regular expressions of the source treat them as the code points
  they encode.
\<close>

datatype ClientStatusEnum = Idle | NewTask | Interrupt | Working | Responding | Closed

record IChatMessage =
  role :: string
  content :: string
  images :: "string list option"

text \<open>
  \<^verbatim>\<open>IChatPrompt\<close>. The keys marked \<^verbatim>\<open>NotRequired\<close> are options. The temperature is a
  float that is only ever copied into the request; it is kept as the numeral the prompt
  file wrote. \<^verbatim>\<open>jsonPrefix\<close> is not declared in the TypedDict but is read by
  \<^verbatim>\<open>edit_photo\<close> and \<^verbatim>\<open>crop_rotate\<close>.
\<close>

record IChatPrompt =
  messages :: "IChatMessage list"
  stop :: "string list option"
  temperature :: "string option"
  model :: "string option"
  prefix :: "string option"
  jsonPrefix :: "string option"

type_synonym catalog = "string \<Rightarrow> (string \<Rightarrow> IChatPrompt option) option"

type_synonym variables = "(string \<Rightarrow> string option) option"

definition utf8 :: "nat list \<Rightarrow> string" where
  "utf8 bs = map char_of bs"

section \<open>\<^verbatim>\<open>get_prompts\<close>: the template renderer\<close>

definition prompt_error_message_en :: IChatPrompt where
  "prompt_error_message_en =
     \<lparr>messages = [\<lparr>role = ''system'',
         content = ''Generate a message to tell someone that you've experienced an error.'',
         images = None\<rparr>],
      stop = None, temperature = None, model = None, prefix = None, jsonPrefix = None\<rparr>"

definition prompt_error_message_zh :: IChatPrompt where
  "prompt_error_message_zh =
     \<lparr>messages = [\<lparr>role = ''system'',
         content = utf8 [232, 171, 139, 231, 148, 168, 230, 173, 163, 233, 171, 148, 228, 184,
           173, 230, 150, 135, 230, 146, 176, 229, 175, 171, 228, 184, 128, 229, 143, 165, 232,
           169, 177, 239, 188, 140, 229, 145, 138, 232, 168, 180, 229, 176, 141, 230, 150, 185,
           228, 189, 160, 230, 173, 163, 229, 156, 168, 231, 153, 188, 231, 148, 159, 233, 140,
           175, 232, 170, 164, 239, 188, 140, 232, 171, 139, 231, 168, 141, 229, 190, 140, 229,
           134, 141, 232, 169, 166, 227, 128, 130],
         images = None\<rparr>],
      stop = None, temperature = None, model = None, prefix = None, jsonPrefix = None\<rparr>"

text \<open>The class attribute \<^verbatim>\<open>prompt_error_message\<close>: a dict with the keys 'en' and 'zh'.\<close>

definition prompt_error_message :: "string \<Rightarrow> IChatPrompt option" where
  "prompt_error_message lang =
     (if lang = ''en'' then Some prompt_error_message_en
      else if lang = ''zh'' then Some prompt_error_message_zh
      else None)"

text \<open>The character class \<^verbatim>\<open>[a-zA-Z0-9\_]\<close>.\<close>

definition is_ident_char :: "char \<Rightarrow> bool" where
  "is_ident_char c =
     (let n = (of_char c :: nat)
      in (97 \<le> n \<and> n \<le> 122) \<or> (65 \<le> n \<and> n \<le> 90) \<or> (48 \<le> n \<and> n \<le> 57) \<or> n = 95)"

text \<open>
  One attempt of the pattern \<^verbatim>\<open>(?<!\{)\{[a-zA-Z0-9\_]+\}(?!\})\<close> at the current position:
  \<open>prev\<close> is the character before the position in the subject (None at its start),
  the string is the rest of the subject. The result is the key between the braces and
  the subject after the match. The greedy \<^verbatim>\<open>+\<close> takes the longest run of identifier
  characters; giving characters back cannot help, since the character after a shorter
  run is an identifier character and not the closing brace.
\<close>

definition template_match :: "char option \<Rightarrow> string \<Rightarrow> (string \<times> string) option" where
  "template_match prev s =
     (case s of
        [] \<Rightarrow> None
      | c # t \<Rightarrow>
          if c = CHR ''{'' \<and> prev \<noteq> Some CHR ''{'' then
            (let key = takeWhile is_ident_char t; r = dropWhile is_ident_char t
             in if key = [] then None
                else (case r of
                        [] \<Rightarrow> None
                      | d # r' \<Rightarrow>
                          if d = CHR ''}'' then
                            (case r' of
                               [] \<Rightarrow> Some (key, r')
                             | e # _ \<Rightarrow> if e = CHR ''}'' then None else Some (key, r'))
                          else None))
          else None)"

text \<open>The inner function \<^verbatim>\<open>replace_content\<close>, on the key \<^verbatim>\<open>match.group()[1:-1]\<close>.\<close>

definition replace_content :: "variables \<Rightarrow> string \<Rightarrow> string" where
  "replace_content data key =
     (case data of
        None \<Rightarrow> []
      | Some d \<Rightarrow> (if key \<noteq> [] then (case d key of Some v \<Rightarrow> v | None \<Rightarrow> []) else []))"

lemma template_match_shorter:
  "template_match prev s = Some (key, rest) \<Longrightarrow> length rest < length s"
proof -
  assume m: "template_match prev s = Some (key, rest)"
  then obtain c t where s: "s = c # t"
    by (cases s) (auto simp: template_match_def)
  from m s obtain d where r: "dropWhile is_ident_char t = d # rest"
    by (auto simp: template_match_def Let_def split: if_splits list.splits)
  have "length (dropWhile is_ident_char t) \<le> length t"
    by (rule length_dropWhile_le)
  with r s show ?thesis by simp
qed

text \<open>
  \<^verbatim>\<open>template.sub(replace_content, text)\<close>: the subject is scanned from left to right;
  where the pattern matches, the replacement is emitted and the scan goes on after the
  match (whose last character is the closing brace); elsewhere the character is copied.
  The replacement is never scanned again.
\<close>

function template_sub :: "variables \<Rightarrow> char option \<Rightarrow> string \<Rightarrow> string" where
  "template_sub data prev [] = []"
| "template_sub data prev (c # cs) =
     (case template_match prev (c # cs) of
        Some (key, rest) \<Rightarrow> replace_content data key @ template_sub data (Some CHR ''}'') rest
      | None \<Rightarrow> c # template_sub data (Some c) cs)"
  by pat_completeness auto
termination
  by (relation "measure (\<lambda>(data, prev, s). length s)")
     (auto dest: template_match_shorter)

text \<open>\<^verbatim>\<open>re.sub("}}", "}", s)\<close> and \<^verbatim>\<open>re.sub("{{", "{", s)\<close>: leftmost, non-overlapping.\<close>

fun sub_close :: "string \<Rightarrow> string" where
  "sub_close [] = []"
| "sub_close [c] = [c]"
| "sub_close (c # d # s) =
     (if c = CHR ''}'' \<and> d = CHR ''}'' then CHR ''}'' # sub_close s else c # sub_close (d # s))"

fun sub_open :: "string \<Rightarrow> string" where
  "sub_open [] = []"
| "sub_open [c] = [c]"
| "sub_open (c # d # s) =
     (if c = CHR ''{'' \<and> d = CHR ''{'' then CHR ''{'' # sub_open s else c # sub_open (d # s))"

text \<open>The new value of \<^verbatim>\<open>msg['content']\<close> in the loop over the messages.\<close>

definition render_content :: "variables \<Rightarrow> string \<Rightarrow> string" where
  "render_content data c = sub_open (sub_close (template_sub data None c))"

text \<open>
  \<^verbatim>\<open>self.prompts.get(lang, {}).get(prompt_id)\<close>. An \<^verbatim>\<open>IChatPrompt\<close> always has the key
  \<^verbatim>\<open>messages\<close>, so a prompt that is found is truthy and the \<^verbatim>\<open>or\<close> takes it.
\<close>

definition lookup_prompt :: "catalog \<Rightarrow> string \<Rightarrow> string \<Rightarrow> IChatPrompt option" where
  "lookup_prompt cat lang prompt_id =
     (case cat lang of None \<Rightarrow> None | Some m \<Rightarrow> m prompt_id)"

definition get_prompts :: "catalog \<Rightarrow> string \<Rightarrow> string \<Rightarrow> variables \<Rightarrow> IChatPrompt" where
  "get_prompts cat lang prompt_id data =
     (let prompts =
            (case lookup_prompt cat lang prompt_id of
               Some p \<Rightarrow> p
             | None \<Rightarrow>
                 (case prompt_error_message lang of
                    Some e \<Rightarrow> e
                  | None \<Rightarrow> prompt_error_message_en))
      in prompts\<lparr>messages :=
           map (\<lambda>msg. msg\<lparr>content := render_content data (content msg)\<rparr>) (messages prompts)\<rparr>)"

section \<open>Session state and \<^verbatim>\<open>get_conversation\<close>\<close>

text \<open>
  Values decoded from JSON whose shape the code does not fix (the editor setup, the
  adjustments the backend proposes), as \<^verbatim>\<open>json.loads\<close> builds them: an integer is an
  \<^verbatim>\<open>int\<close>; a number with a fraction or an exponent is a \<^verbatim>\<open>float\<close>, whose value is a
  rational, or the float \<^verbatim>\<open>-0.0\<close>, or an infinity (\<open>JInfinity True\<close> is the
  negative one); \<^verbatim>\<open>NaN\<close> is the one object \<^verbatim>\<open>json.decoder.NaN\<close>. The keys of an object
  are distinct, in the order of insertion.
\<close>

datatype json =
    JNull
  | JBool bool
  | JInt int
  | JFloat rat
  | JNegZero
  | JInfinity bool
  | JNaN
  | JString string
  | JArray "json list"
  | JObject "(string \<times> json) list"

text \<open>
  The comparisons of Python on these values. A \<^verbatim>\<open>bool\<close>, an \<^verbatim>\<open>int\<close> and a finite \<^verbatim>\<open>float\<close>
  are compared by their value (\<^verbatim>\<open>True == 1\<close>, \<^verbatim>\<open>0 == 0.0\<close>). Inside a list or a
  dict the elements are compared by identity first, so that the object \<^verbatim>\<open>NaN\<close> equals
  itself there (\<open>py_eq\<close>); the operator \<^verbatim>\<open>!=\<close> applied to \<^verbatim>\<open>NaN\<close> itself is true
  (\<open>py_ne\<close>). Two dicts are equal when they have as many keys and every key of the
  first has an equal value in the second.
\<close>

definition number_of :: "json \<Rightarrow> rat option" where
  "number_of v =
     (case v of
        JBool b \<Rightarrow> Some (if b then 1 else 0)
      | JInt i \<Rightarrow> Some (of_int i)
      | JFloat r \<Rightarrow> Some r
      | JNegZero \<Rightarrow> Some 0
      | _ \<Rightarrow> None)"

primrec py_eq :: "json \<Rightarrow> json \<Rightarrow> bool" where
  "py_eq JNull w = (w = JNull)"
| "py_eq (JBool b) w = (number_of w = Some (if b then 1 else 0))"
| "py_eq (JInt i) w = (number_of w = Some (of_int i))"
| "py_eq (JFloat r) w = (number_of w = Some r)"
| "py_eq JNegZero w = (number_of w = Some 0)"
| "py_eq (JInfinity negative) w = (w = JInfinity negative)"
| "py_eq JNaN w = (w = JNaN)"
| "py_eq (JString s) w = (w = JString s)"
| "py_eq (JArray xs) w =
     (case w of
        JArray ys \<Rightarrow>
          length xs = length ys \<and> list_all (\<lambda>(same, y). same y) (zip (map py_eq xs) ys)
      | _ \<Rightarrow> False)"
| "py_eq (JObject xs) w =
     (case w of
        JObject ys \<Rightarrow>
          length xs = length ys
          \<and> list_all (\<lambda>(key, same). case map_of ys key of None \<Rightarrow> False | Some y \<Rightarrow> same y)
               (map (map_prod id py_eq) xs)
      | _ \<Rightarrow> False)"

definition py_ne :: "json \<Rightarrow> json \<Rightarrow> bool" where
  "py_ne v w = (v = JNaN \<or> w = JNaN \<or> \<not> py_eq v w)"

text \<open>
  \<^verbatim>\<open>IClientChatDetails\<close>; its message history is the field \<open>history\<close> (the key
  \<^verbatim>\<open>messages\<close>, a name the prompt record already has) and the key \<^verbatim>\<open>setup\<close> is
  \<open>editor_setup\<close>.
\<close>

record IClientChatDetails =
  page :: string
  history :: "IChatMessage list"
  conversation :: "string option"
  editor_setup :: "(string \<times> json) list option"

text \<open>
  \<^verbatim>\<open>IClientData\<close> without the transport handle \<^verbatim>\<open>client\<close>, whose state is part of the
  world below, and without \<^verbatim>\<open>results\<close>, which no function reads or writes. The key
  \<^verbatim>\<open>id\<close> is \<open>client_id\<close> and the key \<^verbatim>\<open>images\<close> is \<open>client_images\<close>.
  The pending action is the string the inbound frame carried.
\<close>

record IClientData =
  client_id :: nat
  lang :: string
  action :: "string option"
  status :: ClientStatusEnum
  chatDetails :: "IClientChatDetails option"
  fileName :: "string option"
  client_images :: "string list option"

type_synonym role_table = "(string \<times> (string \<times> string) list) list"

definition default_role_names_zh :: "(string \<times> string) list" where
  "default_role_names_zh =
     [(''user'', utf8 [228, 189, 191, 231, 148, 168, 232, 128, 133]),
      (''assistant'', utf8 [230, 150, 175, 229, 190, 183, 32, 40, 228, 189, 160, 41])]"

definition default_role_names_en :: "(string \<times> string) list" where
  "default_role_names_en = [(''user'', ''User''), (''assistant'', ''Cindex (You)'')]"

definition default_role_names :: role_table where
  "default_role_names = [(''zh'', default_role_names_zh), (''en'', default_role_names_en)]"

text \<open>\<^verbatim>\<open>sep.join(xs)\<close>.\<close>

fun join :: "string \<Rightarrow> string list \<Rightarrow> string" where
  "join sep [] = []"
| "join sep [x] = x"
| "join sep (x # y # ys) = x @ sep @ join sep (y # ys)"

text \<open>The three backquotes that fence a message in the conversation string.\<close>

definition fence :: string where
  "fence = replicate 3 (char_of (96 :: nat))"

definition conversation_line :: "(string \<times> string) list \<Rightarrow> IChatMessage \<Rightarrow> string" where
  "conversation_line lang_role_names msg =
     (case map_of lang_role_names (role msg) of Some r \<Rightarrow> r | None \<Rightarrow> role msg)
       @ '': '' @ fence @ content msg @ fence"

text \<open>
  \<^verbatim>\<open>get_conversation\<close> returns the string and the client data, whose chat details it
  may have given the key \<^verbatim>\<open>conversation\<close>. A \<^verbatim>\<open>role_names\<close> argument that is None or an
  empty dict is replaced by the default table.
\<close>

definition get_conversation ::
  "IClientData \<Rightarrow> string \<Rightarrow> role_table option \<Rightarrow> string \<times> IClientData" where
  "get_conversation client_info lng role_names =
     (case chatDetails client_info of
        None \<Rightarrow> ([], client_info)
      | Some chat_details \<Rightarrow>
          (case conversation chat_details of
             Some cached \<Rightarrow> (cached, client_info)
           | None \<Rightarrow>
               (let names = (case role_names of
                               None \<Rightarrow> default_role_names
                             | Some r \<Rightarrow> if r = [] then default_role_names else r);
                    lang_role_names = (case map_of names lng of
                                         Some l \<Rightarrow> l
                                       | None \<Rightarrow> default_role_names_en);
                    conversation_str =
                      join [char_of (10 :: nat)]
                        (map (conversation_line lang_role_names) (history chat_details))
                in (conversation_str,
                    client_info\<lparr>chatDetails :=
                      Some (chat_details\<lparr>conversation := Some conversation_str\<rparr>)\<rparr>))))"

section \<open>The session: transport, backend and the cooperative schedule\<close>

text \<open>
  The two coroutines of a session run on one asyncio event loop: the Receiver runs only
  while the Worker is suspended in an \<^verbatim>\<open>await\<close>. A run of the Worker is therefore a
  function of a script that says, for each \<^verbatim>\<open>await\<close> in the order the Worker reaches them,
  what the environment did meanwhile: the inbound messages the Receiver handled, whether
  the connection closed, and the outcome of the awaited operation (each step carries an
  outcome for every kind of operation; the operation reads its own). A script that ends
  leaves the Worker suspended: the result \<open>Blocked\<close>.
\<close>

datatype error =
    ValueError
  | KeyError
  | IndexError
  | AttributeError
  | ConnectionError
  | JSONDecodeError
  | WebSocketException
  | ClientError

datatype 'a res = Ret 'a | Raise error | Blocked

text \<open>Outbound frames (the dicts given to \<^verbatim>\<open>json.dumps\<close>).\<close>

datatype payload = NoPayload | LangPayload string | SetupPayload json

datatype frame =
    ResponseStart "string option"
  | Response string "string option"
  | ResponseEnd "string option"
  | ResponseAction string payload

text \<open>
  \<^verbatim>\<open>await client.send(...)\<close> returns, raises \<^verbatim>\<open>ConnectionClosedError\<close>, or raises another
  \<^verbatim>\<open>WebSocketException\<close>.
\<close>

datatype send_result = Delivered | ConnectionClosedError | OtherWebSocketException

text \<open>
  An inbound message: text that \<^verbatim>\<open>json.loads\<close> rejects, or a JSON object with the optional
  keys of the interface.
\<close>

record inbound_frame =
  f_lang :: "string option"
  f_fileName :: "string option"
  f_images :: "string list option"
  f_action :: "string option"
  f_details :: "IClientChatDetails option"

datatype inbound = Malformed | Frame inbound_frame

text \<open>
  The value under \<^verbatim>\<open>message\<close> in a reply of the backend: a string, a dict (with its
  \<^verbatim>\<open>content\<close>, when it has one), or something else.
\<close>

datatype message_field = MessageStr string | MessageDict "string option" | MessageOther

text \<open>
  The reply to the POST: the request fails in the HTTP client, or a response arrives with
  its status and, for the blocking call, the \<^verbatim>\<open>message\<close> of its JSON body when present.
\<close>

datatype http_result = HttpFailure error | HttpResponse nat "message_field option"

text \<open>
  One read of the streamed body: a line that decodes to a chunk (with its \<^verbatim>\<open>message\<close>
  when present), a failure (of the read, or of \<^verbatim>\<open>json.loads\<close> on the line), or the end.
\<close>

datatype stream_line = Line "message_field option" | LineError error | EndOfBody

record env_step =
  inbound :: "inbound list"
  closes :: bool
  send_res :: send_result
  http_res :: http_result
  line_res :: stream_line

text \<open>
  What passes between the session and the outside, in order: a frame handed to the
  transport with the outcome of the send, a generation request (streaming or not) with
  the session status at the instant the request is issued, and a chunk read from the
  streamed reply.
\<close>

datatype event =
    Sent frame send_result
  | Generate bool IChatPrompt ClientStatusEnum
  | Chunk "message_field option"

text \<open>
  The state both coroutines see: the client data, \<^verbatim>\<open>client.closed\<close>, whether the client
  id is a key of \<^verbatim>\<open>self.clients\<close>, the events so far and the rest of the script.
\<close>

record world =
  ci :: IClientData
  conn_closed :: bool
  registered :: bool
  trace :: "event list"
  script :: "env_step list"

type_synonym 'a task = "world \<Rightarrow> 'a res \<times> world"

subsection \<open>\<^verbatim>\<open>ws_receiver\<close>\<close>

text \<open>The body of the loop of \<^verbatim>\<open>ws_receiver\<close> for one message.\<close>

definition ws_receiver_message :: "IClientData \<Rightarrow> inbound \<Rightarrow> IClientData" where
  "ws_receiver_message client_info message =
     (case message of
        Malformed \<Rightarrow> client_info
      | Frame data \<Rightarrow>
          (let c1 = (case f_lang data of
                       Some l \<Rightarrow> client_info\<lparr>lang := l\<rparr>
                     | None \<Rightarrow> client_info);
               c2 = (case f_fileName data of
                       Some n \<Rightarrow> c1\<lparr>fileName := Some n\<rparr>
                     | None \<Rightarrow> c1);
               c3 = (case f_images data of
                       Some i \<Rightarrow> c2\<lparr>client_images := Some i\<rparr>
                     | None \<Rightarrow> c2);
               c4 = (case f_action data of
                       Some a \<Rightarrow>
                         c3\<lparr>action := Some a,
                            status := (if status c3 = Working \<or> status c3 = Responding
                                       then Interrupt else NewTask)\<rparr>
                     | None \<Rightarrow> c3)
           in (case f_details data of
                 Some d \<Rightarrow> c4\<lparr>chatDetails := Some d\<rparr>
               | None \<Rightarrow> c4)))"

definition ws_receiver :: "IClientData \<Rightarrow> inbound list \<Rightarrow> IClientData" where
  "ws_receiver client_info msgs = foldl ws_receiver_message client_info msgs"

text \<open>One \<^verbatim>\<open>await\<close> of the Worker: the next step of the script happens.\<close>

definition await :: "world \<Rightarrow> (env_step \<times> world) option" where
  "await w =
     (case script w of
        [] \<Rightarrow> None
      | s # rest \<Rightarrow>
          Some (s, w\<lparr>ci := ws_receiver (ci w) (inbound s),
                     conn_closed := (conn_closed w \<or> closes s),
                     script := rest\<rparr>))"

subsection \<open>Sequencing\<close>

definition ret :: "'a \<Rightarrow> 'a task" where
  "ret x w = (Ret x, w)"

definition raise :: "error \<Rightarrow> 'a task" where
  "raise e w = (Raise e, w)"

definition andthen :: "'a task \<Rightarrow> ('a \<Rightarrow> 'b task) \<Rightarrow> 'b task" where
  "andthen m f w =
     (case m w of
        (Ret x, w') \<Rightarrow> f x w'
      | (Raise e, w') \<Rightarrow> (Raise e, w')
      | (Blocked, w') \<Rightarrow> (Blocked, w'))"

definition get_ci :: "IClientData task" where
  "get_ci w = (Ret (ci w), w)"

definition set_ci :: "IClientData \<Rightarrow> unit task" where
  "set_ci c w = (Ret (), w\<lparr>ci := c\<rparr>)"

definition set_status :: "ClientStatusEnum \<Rightarrow> unit task" where
  "set_status st w = (Ret (), w\<lparr>ci := (ci w)\<lparr>status := st\<rparr>\<rparr>)"

text \<open>\<^verbatim>\<open>self.get_conversation(client_info, lang)\<close> in a handler: the cache is written.\<close>

definition conversation_of :: "string \<Rightarrow> string task" where
  "conversation_of lng w =
     (case get_conversation (ci w) lng None of
        (conversation_str, client_info) \<Rightarrow> (Ret conversation_str, w\<lparr>ci := client_info\<rparr>))"

subsection \<open>The transport and the backend\<close>

text \<open>\<^verbatim>\<open>await client.send(json.dumps(frame))\<close>, with its outcome as the value.\<close>

definition client_send :: "frame \<Rightarrow> send_result task" where
  "client_send f w =
     (case await w of
        None \<Rightarrow> (Blocked, w)
      | Some (s, w') \<Rightarrow> (Ret (send_res s), w'\<lparr>trace := trace w' @ [Sent f (send_res s)]\<rparr>))"

text \<open>
  \<^verbatim>\<open>ensure_ws_send_message\<close>. Every path through the body of its \<^verbatim>\<open>while\<close> returns or
  raises (another \<^verbatim>\<open>WebSocketException\<close> is not caught), so the body runs at most once.
\<close>

definition ensure_ws_send_message :: "frame \<Rightarrow> bool task" where
  "ensure_ws_send_message json_message w =
     (if conn_closed w then (Ret False, w)
      else andthen (client_send json_message)
             (\<lambda>r. case r of
                     Delivered \<Rightarrow> ret True
                   | ConnectionClosedError \<Rightarrow> ret False
                   | OtherWebSocketException \<Rightarrow> raise WebSocketException) w)"

text \<open>
  \<^verbatim>\<open>_response_from_llm\<close>: the request is issued, the reply awaited, and the text taken
  from it.
\<close>

definition response_from_llm :: "IChatPrompt \<Rightarrow> string task" where
  "response_from_llm prompts w0 =
     (let w = w0\<lparr>trace := trace w0 @ [Generate False prompts (status (ci w0))]\<rparr>
      in case await w of
           None \<Rightarrow> (Blocked, w)
         | Some (s, w') \<Rightarrow>
             (case http_res s of
                HttpFailure e \<Rightarrow> (Raise e, w')
              | HttpResponse code data \<Rightarrow>
                  if code \<noteq> 200 then (Raise ConnectionError, w')
                  else (case data of
                          None \<Rightarrow> (Raise ValueError, w')
                        | Some (MessageStr m) \<Rightarrow> (Ret m, w')
                        | Some (MessageDict (Some c)) \<Rightarrow> (Ret c, w')
                        | Some (MessageDict None) \<Rightarrow> (Raise ValueError, w')
                        | Some MessageOther \<Rightarrow> (Raise ValueError, w'))))"

text \<open>
  \<^verbatim>\<open>_stream_from_llm\<close> up to its loop: the request is issued, the response awaited and
  its status checked. The lines of the body are read by \<open>stream_loop\<close> below.
\<close>

definition stream_from_llm :: "IChatPrompt \<Rightarrow> unit task" where
  "stream_from_llm prompts w0 =
     (let w = w0\<lparr>trace := trace w0 @ [Generate True prompts (status (ci w0))]\<rparr>
      in case await w of
           None \<Rightarrow> (Blocked, w)
         | Some (s, w') \<Rightarrow>
             (case http_res s of
                HttpFailure e \<Rightarrow> (Raise e, w')
              | HttpResponse code data \<Rightarrow>
                  if code \<noteq> 200 then (Raise ConnectionError, w') else (Ret (), w')))"

subsection \<open>No operation gives script back\<close>

text \<open>
  A task is \<open>steady\<close> when it never lengthens the script: the measure by which the
  loops below terminate.
\<close>

definition steady :: "'a task \<Rightarrow> bool" where
  "steady m = (\<forall>w. length (script (snd (m w))) \<le> length (script w))"

lemma steadyD: "steady m \<Longrightarrow> m w = (r, w') \<Longrightarrow> length (script w') \<le> length (script w)"
  by (metis steady_def snd_conv)

lemma await_shorter: "await w = Some (s, w') \<Longrightarrow> length (script w') < length (script w)"
  by (auto simp: await_def split: list.splits)

lemma steady_ret [simp, intro!]: "steady (ret x)"
  by (simp add: steady_def ret_def)

lemma steady_raise [simp, intro!]: "steady (raise e)"
  by (simp add: steady_def raise_def)

lemma steady_get_ci [simp, intro!]: "steady get_ci"
  by (simp add: steady_def get_ci_def)

lemma steady_set_ci [simp, intro!]: "steady (set_ci c)"
  by (simp add: steady_def set_ci_def)

lemma steady_set_status [simp, intro!]: "steady (set_status st)"
  by (simp add: steady_def set_status_def)

lemma steady_conversation_of [simp, intro!]: "steady (conversation_of lng)"
  by (simp add: steady_def conversation_of_def split: prod.splits)

lemma steady_andthen [intro!]:
  assumes "steady m" and "\<And>x. steady (f x)"
  shows "steady (andthen m f)"
  unfolding steady_def
proof
  fix w
  obtain r w1 where m: "m w = (r, w1)" by (cases "m w")
  from assms(1) m have le1: "length (script w1) \<le> length (script w)" by (rule steadyD)
  show "length (script (snd (andthen m f w))) \<le> length (script w)"
  proof (cases r)
    case (Ret x)
    from assms(2) have "length (script (snd (f x w1))) \<le> length (script w1)"
      by (simp add: steady_def)
    with le1 m Ret show ?thesis by (simp add: andthen_def)
  next
    case (Raise e)
    with le1 m show ?thesis by (simp add: andthen_def)
  next
    case Blocked
    with le1 m show ?thesis by (simp add: andthen_def)
  qed
qed

lemma steady_if [intro!]: "steady m \<Longrightarrow> steady n \<Longrightarrow> steady (if b then m else n)"
  by simp

lemma steady_client_send [simp, intro!]: "steady (client_send f)"
  by (auto simp: steady_def client_send_def split: option.splits dest: await_shorter less_imp_le)

lemma steady_ensure_ws_send_message [simp, intro!]: "steady (ensure_ws_send_message f)"
proof -
  have "steady (andthen (client_send f)
             (\<lambda>r. case r of
                     Delivered \<Rightarrow> ret True
                   | ConnectionClosedError \<Rightarrow> ret False
                   | OtherWebSocketException \<Rightarrow> raise WebSocketException))"
    by (intro steady_andthen steady_client_send) (simp split: send_result.splits)
  then show ?thesis
    by (simp add: steady_def ensure_ws_send_message_def)
qed

lemma steady_response_from_llm [simp, intro!]: "steady (response_from_llm p)"
  by (auto simp: steady_def response_from_llm_def Let_def
      split: option.splits http_result.splits message_field.splits
      dest!: await_shorter)

lemma steady_stream_from_llm [simp, intro!]: "steady (stream_from_llm p)"
  by (auto simp: steady_def stream_from_llm_def Let_def
      split: option.splits http_result.splits dest!: await_shorter)

subsection \<open>\<^verbatim>\<open>stream_prompts\<close>\<close>

text \<open>The text of a chunk: \<^verbatim>\<open>content\<close> of a dict that has it, the string itself, or None.\<close>

definition chunk_text :: "message_field \<Rightarrow> string option" where
  "chunk_text m =
     (case m of
        MessageDict (Some c) \<Rightarrow> Some c
      | MessageDict None \<Rightarrow> None
      | MessageStr t \<Rightarrow> Some t
      | MessageOther \<Rightarrow> None)"

text \<open>
  How one turn of the loop over the chunks ends: the next turn starts with the text not
  yet sent (\<^verbatim>\<open>prev_msg\<close>), or the function returns False.
\<close>

datatype turn = Continue string | ReturnFalse

text \<open>
  The block under \<^verbatim>\<open>if text:\<close>: the carried text and the new one go out in one frame;
  a \<^verbatim>\<open>WebSocketException\<close> other than \<^verbatim>\<open>ConnectionClosedError\<close> keeps them for later.
\<close>

definition send_text :: "string option \<Rightarrow> string \<Rightarrow> string \<Rightarrow> turn task" where
  "send_text act prev_msg t =
     (let text = prev_msg @ t
      in andthen (client_send (Response text act))
           (\<lambda>r. case r of
                   Delivered \<Rightarrow> ret (Continue [])
                 | ConnectionClosedError \<Rightarrow> ret ReturnFalse
                 | OtherWebSocketException \<Rightarrow> ret (Continue text)))"

text \<open>The body of the loop, for the chunk just read.\<close>

definition stream_chunk ::
  "string option \<Rightarrow> string \<Rightarrow> message_field option \<Rightarrow> turn task" where
  "stream_chunk act prev_msg chunk_data w =
     (if \<not> registered w \<or> conn_closed w
         \<or> status (ci w) = Closed \<or> status (ci w) = Interrupt
      then (Ret ReturnFalse, w)
      else (case chunk_data of
              None \<Rightarrow> (Ret (Continue prev_msg), w)
            | Some m \<Rightarrow>
                andthen
                  (if status (ci w) = Working
                   then andthen (set_status Responding)
                          (\<lambda>_. ensure_ws_send_message (ResponseStart act))
                   else ret True)
                  (\<lambda>sent.
                     if \<not> sent then ret ReturnFalse
                     else (case chunk_text m of
                             None \<Rightarrow> ret (Continue prev_msg)
                           | Some t \<Rightarrow>
                               if t = [] then ret (Continue prev_msg)
                               else send_text act prev_msg t)) w))"

lemma steady_send_text [simp, intro!]: "steady (send_text act p t)"
  unfolding send_text_def Let_def
  by (intro steady_andthen steady_client_send) (simp split: send_result.splits)

lemma steady_stream_chunk [simp, intro!]: "steady (stream_chunk act p c)"
  unfolding steady_def
proof
  fix w
  show "length (script (snd (stream_chunk act p c w))) \<le> length (script w)"
  proof (cases "\<not> registered w \<or> conn_closed w
         \<or> status (ci w) = Closed \<or> status (ci w) = Interrupt")
    case True
    then show ?thesis by (simp add: stream_chunk_def)
  next
    case stay: False
    show ?thesis
    proof (cases c)
      case None
      with stay show ?thesis by (simp add: stream_chunk_def)
    next
      case (Some m)
      let ?B = "andthen
                  (if status (ci w) = Working
                   then andthen (set_status Responding)
                          (\<lambda>_. ensure_ws_send_message (ResponseStart act))
                   else ret True)
                  (\<lambda>sent.
                     if \<not> sent then ret ReturnFalse
                     else (case chunk_text m of
                             None \<Rightarrow> ret (Continue p)
                           | Some t \<Rightarrow>
                               if t = [] then ret (Continue p)
                               else send_text act p t))"
      have "steady ?B"
        by (intro steady_andthen steady_if) (simp_all split: option.splits)
      then have "length (script (snd (?B w))) \<le> length (script w)"
        by (simp only: steady_def)
      moreover from stay Some have "stream_chunk act p c w = ?B w"
        by (simp add: stream_chunk_def split del: if_split)
      ultimately show ?thesis by (simp only:)
    qed
  qed
qed

text \<open>
  The \<^verbatim>\<open>async for\<close> over the chunks, entered with the text not yet sent. The result is
  None when the function returned False inside the loop, and the text still not sent
  when the body of the response ended.
\<close>

function stream_loop :: "string option \<Rightarrow> string \<Rightarrow> string option task" where
  "stream_loop act prev_msg w =
     (case await w of
        None \<Rightarrow> (Blocked, w)
      | Some (s, w1) \<Rightarrow>
          (case line_res s of
             EndOfBody \<Rightarrow> (Ret (Some prev_msg), w1)
           | LineError e \<Rightarrow> (Raise e, w1)
           | Line chunk_data \<Rightarrow>
               (case stream_chunk act prev_msg chunk_data
                       (w1\<lparr>trace := trace w1 @ [Chunk chunk_data]\<rparr>) of
                  (Ret (Continue p), w2) \<Rightarrow> stream_loop act p w2
                | (Ret ReturnFalse, w2) \<Rightarrow> (Ret None, w2)
                | (Raise e, w2) \<Rightarrow> (Raise e, w2)
                | (Blocked, w2) \<Rightarrow> (Blocked, w2))))"
  by pat_completeness auto
termination
proof (relation "measure (\<lambda>(act, prev_msg, w). length (script w))")
  show "wf (measure (\<lambda>(act, prev_msg, w). length (script w)))"
    by simp
next
  fix act :: "string option" and prev_msg :: string and w :: world
    and x2 s w1 chunk_data x y w2 p
  assume a: "await w = Some x2" "(s, w1) = x2"
    and c: "(x, w2) = stream_chunk act prev_msg chunk_data
                         (w1\<lparr>trace := trace w1 @ [Chunk chunk_data]\<rparr>)"
  from a have "length (script w1) < length (script w)"
    by (auto dest: await_shorter)
  moreover from c
  have "length (script w2) \<le> length (script (w1\<lparr>trace := trace w1 @ [Chunk chunk_data]\<rparr>))"
    by (metis steadyD steady_stream_chunk)
  ultimately show "((act, p, w2), act, prev_msg, w) \<in> measure (\<lambda>(act, prev_msg, w). length (script w))"
    by simp
qed

declare stream_loop.simps [simp del]

lemma steady_stream_loop [simp, intro!]: "steady (stream_loop act p)"
  unfolding steady_def
proof
  fix w
  show "length (script (snd (stream_loop act p w))) \<le> length (script w)"
  proof (induction act p w rule: stream_loop.induct)
    case (1 act prev_msg w)
    show ?case
    proof (cases "await w")
      case None
      then show ?thesis by (simp add: stream_loop.simps)
    next
      case (Some x)
      obtain s w1 where x: "x = (s, w1)" by (cases x)
      from Some x have l1: "length (script w1) < length (script w)"
        by (auto dest: await_shorter)
      show ?thesis
      proof (cases "line_res s")
        case (Line chunk_data)
        obtain r w2 where sc: "stream_chunk act prev_msg chunk_data
                                 (w1\<lparr>trace := trace w1 @ [Chunk chunk_data]\<rparr>) = (r, w2)"
          by (cases "stream_chunk act prev_msg chunk_data
                       (w1\<lparr>trace := trace w1 @ [Chunk chunk_data]\<rparr>)")
        then have "length (script w2)
            \<le> length (script (w1\<lparr>trace := trace w1 @ [Chunk chunk_data]\<rparr>))"
          by (metis steadyD steady_stream_chunk)
        then have l2: "length (script w2) \<le> length (script w1)"
          by simp
        show ?thesis
        proof (cases r)
          case (Ret t)
          show ?thesis
          proof (cases t)
            case (Continue p')
            from "1.IH" [OF Some x [symmetric] Line sc [symmetric] Ret Continue]
            have "length (script (snd (stream_loop act p' w2))) \<le> length (script w2)" .
            with l1 l2 Some x Line sc Ret Continue show ?thesis
              by (simp add: stream_loop.simps [of act prev_msg w])
          next
            case ReturnFalse
            with l1 l2 Some x Line sc Ret show ?thesis
              by (simp add: stream_loop.simps [of act prev_msg w])
          qed
        next
          case (Raise e)
          with l1 l2 Some x Line sc show ?thesis
            by (simp add: stream_loop.simps [of act prev_msg w])
        next
          case Blocked
          with l1 l2 Some x Line sc show ?thesis
            by (simp add: stream_loop.simps [of act prev_msg w])
        qed
      next
        case (LineError e)
        with l1 Some x show ?thesis by (simp add: stream_loop.simps [of act prev_msg w])
      next
        case EndOfBody
        with l1 Some x show ?thesis by (simp add: stream_loop.simps [of act prev_msg w])
      qed
    qed
  qed
qed

text \<open>The code after the loop, entered with the text still not sent.\<close>

definition stream_finish :: "bool \<Rightarrow> string option \<Rightarrow> string \<Rightarrow> bool task" where
  "stream_finish flag_idle act prev_msg =
     andthen
       (if prev_msg \<noteq> [] then ensure_ws_send_message (Response prev_msg act) else ret True)
       (\<lambda>sent.
          if \<not> sent then ret False
          else andthen (ensure_ws_send_message (ResponseEnd act))
                 (\<lambda>sent.
                    if \<not> sent then ret False
                    else andthen get_ci
                           (\<lambda>c. andthen
                                  (if flag_idle
                                      \<and> (status c = Working \<or> status c = Responding)
                                   then set_status Idle else ret ())
                                  (\<lambda>_. ret True))))"

text \<open>
  \<^verbatim>\<open>stream_prompts\<close> from its loop on, entered with the text not yet sent: the call in
  flight.
\<close>

definition stream_rest :: "bool \<Rightarrow> string option \<Rightarrow> string \<Rightarrow> bool task" where
  "stream_rest flag_idle act prev_msg =
     andthen (stream_loop act prev_msg)
       (\<lambda>r. case r of
               None \<Rightarrow> ret False
             | Some prev_msg \<Rightarrow> stream_finish flag_idle act prev_msg)"

definition stream_prompts :: "IChatPrompt \<Rightarrow> bool \<Rightarrow> string option \<Rightarrow> bool task" where
  "stream_prompts p flag_idle act =
     andthen (set_status Working)
       (\<lambda>_. andthen (stream_from_llm p)
          (\<lambda>_. stream_rest flag_idle act []))"

lemma steady_stream_finish [simp, intro!]: "steady (stream_finish flag_idle act p)"
  unfolding stream_finish_def
  by (intro steady_andthen steady_if) simp_all

lemma steady_stream_rest [simp, intro!]: "steady (stream_rest flag_idle act p)"
  unfolding stream_rest_def
  by (intro steady_andthen) (simp_all split: option.splits)

lemma steady_stream_prompts [simp, intro!]: "steady (stream_prompts p flag_idle act)"
  unfolding stream_prompts_def
  by (intro steady_andthen) simp_all

subsection \<open>The handlers\<close>

text \<open>
  What the handlers take from outside this file: the prompt catalog that \<^verbatim>\<open>__init__\<close>
  loaded, and the library functions \<^verbatim>\<open>json.loads\<close> (None for \<^verbatim>\<open>JSONDecodeError\<close>),
  \<^verbatim>\<open>json.dumps\<close> and the formatting of a value inside an f-string.
\<close>

record server =
  prompts :: catalog
  json_loads :: "string \<Rightarrow> json option"
  json_dumps :: "json \<Rightarrow> string"
  py_str :: "json \<Rightarrow> string"

text \<open>
  \<^verbatim>\<open>results.strip()\<close> removes the leading and the trailing whitespace characters of
  Unicode: the ASCII ones (tab to carriage return, the separators 0x1C to 0x1F and the
  space) and U+0085, U+00A0, U+1680, U+2000 to U+200A, U+2028, U+2029, U+202F, U+205F
  and U+3000, each of which is here the bytes of its UTF-8 encoding. In a well-formed
  UTF-8 string these bytes at the start or at the end are that character: the first
  byte of each encoding is never a continuation byte.
\<close>

definition whitespace :: "string list" where
  "whitespace =
     map (\<lambda>n. [char_of n]) [9, 10, 11, 12, 13, 28, 29, 30, 31, 32 :: nat]
     @ map utf8
         [[194, 133], [194, 160], [225, 154, 128],
          [226, 128, 128], [226, 128, 129], [226, 128, 130], [226, 128, 131],
          [226, 128, 132], [226, 128, 133], [226, 128, 134], [226, 128, 135],
          [226, 128, 136], [226, 128, 137], [226, 128, 138],
          [226, 128, 168], [226, 128, 169], [226, 128, 175], [226, 129, 159],
          [227, 128, 128]]"

text \<open>The length of the first of the given tokens the string starts with, or 0.\<close>

definition token_at_start :: "string list \<Rightarrow> string \<Rightarrow> nat" where
  "token_at_start tokens s =
     (case filter (\<lambda>t. take (length t) s = t) tokens of
        [] \<Rightarrow> 0
      | t # _ \<Rightarrow> length t)"

lemma token_at_start_le: "token_at_start tokens s \<le> length s"
proof (cases "filter (\<lambda>t. take (length t) s = t) tokens")
  case Nil
  then show ?thesis by (simp add: token_at_start_def)
next
  case (Cons t ts)
  then have "t \<in> set (filter (\<lambda>t. take (length t) s = t) tokens)"
    by simp
  then have "take (length t) s = t"
    by simp
  then have "length (take (length t) s) = length t"
    by simp
  then have "length t \<le> length s"
    by simp
  with Cons show ?thesis by (simp add: token_at_start_def)
qed

function strip_start :: "string list \<Rightarrow> string \<Rightarrow> string" where
  "strip_start tokens s =
     (if token_at_start tokens s = 0 then s
      else strip_start tokens (drop (token_at_start tokens s) s))"
  by pat_completeness auto
termination
proof (relation "measure (\<lambda>(tokens, s). length s)")
  show "wf (measure (\<lambda>(tokens, s). length s))"
    by simp
next
  fix tokens :: "string list" and s :: string
  assume "token_at_start tokens s \<noteq> 0"
  moreover have "token_at_start tokens s \<le> length s"
    by (rule token_at_start_le)
  ultimately show "((tokens, drop (token_at_start tokens s) s), tokens, s)
      \<in> measure (\<lambda>(tokens, s). length s)"
    by simp
qed

declare strip_start.simps [simp del]

definition py_strip :: "string \<Rightarrow> string" where
  "py_strip s = rev (strip_start (map rev whitespace) (rev (strip_start whitespace s)))"

text \<open>
  \<^verbatim>\<open>re.compile(r"^[0-9]+$").match(results)\<close> on a stripped string (which has no final
  newline for \<^verbatim>\<open>$\<close> to skip), and \<^verbatim>\<open>int(results)\<close> on a string of digits: a ValueError
  when there are more than 4300 of them (the default limit of the conversion), which
  is None here.
\<close>

definition is_digit :: "char \<Rightarrow> bool" where
  "is_digit c = (let n = (of_char c :: nat) in 48 \<le> n \<and> n \<le> 57)"

definition is_number :: "string \<Rightarrow> bool" where
  "is_number s = (s \<noteq> [] \<and> list_all is_digit s)"

definition int_of :: "string \<Rightarrow> nat" where
  "int_of s = foldl (\<lambda>n c. 10 * n + (of_char c - 48)) 0 s"

definition py_int :: "string \<Rightarrow> nat option" where
  "py_int s = (if 4300 < length s then None else Some (int_of s))"

text \<open>A call whose result the handler drops: \<^verbatim>\<open>await self.stream_prompts(...)\<close>.\<close>

definition discard :: "'a task \<Rightarrow> unit task" where
  "discard m = andthen m (\<lambda>_. ret ())"

definition set_lang :: "string \<Rightarrow> unit task" where
  "set_lang l w = (Ret (), w\<lparr>ci := (ci w)\<lparr>lang := l\<rparr>\<rparr>)"

text \<open>\<^verbatim>\<open>prompts['messages'][0]['images'] = images\<close>, an IndexError without messages.\<close>

definition set_first_images :: "IChatPrompt \<Rightarrow> string list \<Rightarrow> IChatPrompt option" where
  "set_first_images p imgs =
     (case messages p of
        [] \<Rightarrow> None
      | m # ms \<Rightarrow> Some (p\<lparr>messages := m\<lparr>images := Some imgs\<rparr> # ms\<rparr>))"

definition create_welcome_message :: "server \<Rightarrow> unit task" where
  "create_welcome_message srv =
     andthen get_ci
       (\<lambda>c. discard (stream_prompts (get_prompts (prompts srv) (lang c) ''welcome'' None)
                       True (Some ''Welcome'')))"

definition create_image_opened_message :: "server \<Rightarrow> unit task" where
  "create_image_opened_message srv =
     andthen get_ci
       (\<lambda>c. case fileName c of
               None \<Rightarrow> raise ValueError
             | Some n \<Rightarrow>
                 discard (stream_prompts
                            (get_prompts (prompts srv) (lang c) ''imageOpened''
                               (Some [''file_name'' \<mapsto> n]))
                            True (Some ''ImageOpened'')))"

definition create_auto_image_desc_message :: "server \<Rightarrow> unit task" where
  "create_auto_image_desc_message srv =
     andthen get_ci
       (\<lambda>c. case client_images c of
               None \<Rightarrow> raise ValueError
             | Some imgs \<Rightarrow>
                 (case set_first_images
                         (get_prompts (prompts srv) (lang c) ''autoDescription'' None) imgs of
                    None \<Rightarrow> raise IndexError
                  | Some p \<Rightarrow> discard (stream_prompts p True (Some ''AutoImageDesc''))))"

definition stream_not_understand :: "server \<Rightarrow> unit task" where
  "stream_not_understand srv =
     andthen (ensure_ws_send_message (ResponseAction ''notUnderstand'' NoPayload))
       (\<lambda>_. andthen get_ci
          (\<lambda>c. andthen (conversation_of (lang c))
             (\<lambda>conv. discard (stream_prompts
                                (get_prompts (prompts srv) (lang c) ''notUnderstand''
                                   (Some [''conversation'' \<mapsto> conv]))
                                True None))))"

text \<open>
  \<^verbatim>\<open>get_last_message\<close>: the content of \<^verbatim>\<open>messages[-1]\<close>, an IndexError when the history
  is empty.
\<close>

definition get_last_message :: "IClientData \<Rightarrow> error + string" where
  "get_last_message client_info =
     (case chatDetails client_info of
        None \<Rightarrow> Inr []
      | Some cd \<Rightarrow> if history cd = [] then Inl IndexError else Inr (content (last (history cd))))"

definition last_message_of :: "string task" where
  "last_message_of =
     andthen get_ci (\<lambda>c. case get_last_message c of Inl e \<Rightarrow> raise e | Inr m \<Rightarrow> ret m)"

definition switch_lang_by_message :: "server \<Rightarrow> unit task" where
  "switch_lang_by_message srv =
     andthen last_message_of
       (\<lambda>last_message.
          andthen (response_from_llm
                     (get_prompts (prompts srv) ''en'' ''switchLanguage''
                        (Some [''last_message'' \<mapsto> last_message])))
            (\<lambda>results.
               andthen get_ci
                 (\<lambda>c. if status c = Interrupt then ret ()
                       else if \<not> is_number (py_strip results) then raise ValueError
                       else (case py_int (py_strip results) of
                               None \<Rightarrow> raise ValueError
                             | Some intent \<Rightarrow>
                                if intent = 1 then
                                  andthen (set_lang ''zh'')
                                    (\<lambda>_. andthen (ensure_ws_send_message
                                                    (ResponseAction ''switchLang'' (LangPayload ''zh'')))
                                       (\<lambda>_. discard (stream_prompts
                                                       (get_prompts (prompts srv) ''zh'' ''langSwitched''
                                                          (Some [''lang'' \<mapsto> ''zh'']))
                                                       True None)))
                                else if intent = 2 then
                                  andthen (set_lang ''en'')
                                    (\<lambda>_. andthen (ensure_ws_send_message
                                                    (ResponseAction ''switchLang'' (LangPayload ''en'')))
                                       (\<lambda>_. discard (stream_prompts
                                                       (get_prompts (prompts srv) ''en'' ''langSwitched''
                                                          (Some [''lang'' \<mapsto> ''en'']))
                                                       True None)))
                                else if intent = 3 then
                                  andthen last_message_of
                                    (\<lambda>m. discard (stream_prompts
                                                    (get_prompts (prompts srv) (lang c) ''langNotSupported''
                                                       (Some [''last_message'' \<mapsto> m]))
                                                    True None))
                                else if intent = 4 then
                                  andthen last_message_of
                                    (\<lambda>m. discard (stream_prompts
                                                    (get_prompts (prompts srv) (lang c) ''langReAsk''
                                                       (Some [''last_message'' \<mapsto> m]))
                                                    True None))
                                else stream_not_understand srv))))"

text \<open>
  \<^verbatim>\<open>edit_photo\<close> and \<^verbatim>\<open>crop_rotate\<close> from the reply of the backend on (the two functions
  have the same text there): the reply is parsed, the setup sent to the client, and the
  changes against the original setup streamed. \<^verbatim>\<open>adjustments.items()\<close> is an
  AttributeError unless the reply was a JSON object.
\<close>

definition changes_of :: "server \<Rightarrow> (string \<times> json) list \<Rightarrow> (string \<times> json) list \<Rightarrow> string" where
  "changes_of srv original_setup items =
     concat (map (\<lambda>(key, val).
                    case map_of original_setup key of
                      None \<Rightarrow> []
                    | Some old \<Rightarrow>
                        if py_ne val old
                        then key @ '': from '' @ py_str srv old @ '' to '' @ py_str srv val @ ''. ''
                        else [])
            items)"

definition apply_adjustments ::
  "server \<Rightarrow> (string \<times> json) list \<Rightarrow> IChatPrompt \<Rightarrow> string \<Rightarrow> unit task" where
  "apply_adjustments srv original_setup p results =
     andthen get_ci
       (\<lambda>c. if status c = Interrupt then ret ()
             else (case json_loads srv
                          ((case jsonPrefix p of Some x \<Rightarrow> x | None \<Rightarrow> []) @ py_strip results) of
                     None \<Rightarrow> stream_not_understand srv
                   | Some adjustments \<Rightarrow>
                       andthen (ensure_ws_send_message
                                  (ResponseAction ''editImage'' (SetupPayload adjustments)))
                         (\<lambda>_. andthen get_ci
                            (\<lambda>c. if status c = Interrupt then ret ()
                                  else (case adjustments of
                                          JObject items \<Rightarrow>
                                            (let changes = changes_of srv original_setup items
                                             in discard (stream_prompts
                                                  (if changes \<noteq> []
                                                   then get_prompts (prompts srv) (lang c) ''imageEdited''
                                                          (Some [''changes'' \<mapsto> changes])
                                                   else get_prompts (prompts srv) (lang c)
                                                          ''imageNotEdited'' None)
                                                  True None))
                                        | _ \<Rightarrow> raise AttributeError)))))"

text \<open>
  The setup the handler reads: a KeyError when one of the keys is missing, a ValueError
  when there are no chat details or no setup.
\<close>

definition original_setup_of ::
  "string list \<Rightarrow> IClientData \<Rightarrow> error + (string \<times> json) list" where
  "original_setup_of keys client_info =
     (case chatDetails client_info of
        None \<Rightarrow> Inl ValueError
      | Some cd \<Rightarrow>
          (case editor_setup cd of
             None \<Rightarrow> Inl ValueError
           | Some st \<Rightarrow>
               if list_all (\<lambda>k. map_of st k \<noteq> None) keys
               then Inr (map (\<lambda>k. (k, the (map_of st k))) keys)
               else Inl KeyError))"

definition adjust_by_prompt :: "server \<Rightarrow> string list \<Rightarrow> string \<Rightarrow> unit task" where
  "adjust_by_prompt srv keys prompt_id =
     andthen get_ci
       (\<lambda>c. case original_setup_of keys c of
               Inl e \<Rightarrow> raise e
             | Inr original_setup \<Rightarrow>
                 andthen (conversation_of ''en'')
                   (\<lambda>conv.
                      (let p = get_prompts (prompts srv) ''en'' prompt_id
                                 (Some [''current_setup'' \<mapsto> json_dumps srv (JObject original_setup),
                                        ''conversation'' \<mapsto> conv])
                       in andthen (response_from_llm p)
                            (apply_adjustments srv original_setup p))))"

definition edit_photo :: "server \<Rightarrow> unit task" where
  "edit_photo srv = adjust_by_prompt srv [''brightness'', ''contrast'', ''saturation''] ''editImage''"

definition crop_rotate :: "server \<Rightarrow> unit task" where
  "crop_rotate srv = adjust_by_prompt srv [''crop'', ''rotate''] ''rotateCrop''"

definition describe_image :: "server \<Rightarrow> unit task" where
  "describe_image srv =
     andthen get_ci
       (\<lambda>c. case client_images c of
               None \<Rightarrow> raise ValueError
             | Some imgs \<Rightarrow>
                 andthen (conversation_of (lang c))
                   (\<lambda>conv. case set_first_images
                                   (get_prompts (prompts srv) (lang c) ''describeImage''
                                      (Some [''conversation'' \<mapsto> conv])) imgs of
                              None \<Rightarrow> raise IndexError
                            | Some p \<Rightarrow> discard (stream_prompts p True None)))"

text \<open>A handler's last step in most branches: a template of the current language, streamed.\<close>

definition stream_template :: "server \<Rightarrow> string \<Rightarrow> bool \<Rightarrow> unit task" where
  "stream_template srv prompt_id with_conversation =
     andthen get_ci
       (\<lambda>c. if with_conversation
             then andthen (conversation_of (lang c))
                    (\<lambda>conv. discard (stream_prompts
                                       (get_prompts (prompts srv) (lang c) prompt_id
                                          (Some [''conversation'' \<mapsto> conv]))
                                       True None))
             else discard (stream_prompts (get_prompts (prompts srv) (lang c) prompt_id None)
                             True None))"

text \<open>
  The intent call of the two chat handlers: the prompt is rendered, the status set to
  Working and the backend asked; None when the status is Interrupt afterwards (the
  handler returns), a ValueError when the stripped reply is not a number (raised by the
  handler) or has too many digits (raised by \<^verbatim>\<open>int\<close>).
\<close>

definition ask_intent :: "server \<Rightarrow> string \<Rightarrow> nat option task" where
  "ask_intent srv prompt_id =
     andthen get_ci
       (\<lambda>c. andthen (conversation_of (lang c))
          (\<lambda>conv. andthen (set_status Working)
             (\<lambda>_. andthen (response_from_llm
                              (get_prompts (prompts srv) ''en'' prompt_id
                                 (Some [''conversation'' \<mapsto> conv])))
                (\<lambda>results.
                   andthen get_ci
                     (\<lambda>c. if status c = Interrupt then ret None
                           else if \<not> is_number (py_strip results) then raise ValueError
                           else (case py_int (py_strip results) of
                                   None \<Rightarrow> raise ValueError
                                 | Some intent \<Rightarrow> ret (Some intent)))))))"

definition chat_in_blank_page :: "server \<Rightarrow> unit task" where
  "chat_in_blank_page srv =
     andthen (ask_intent srv ''newFile'')
       (\<lambda>r. case r of
               None \<Rightarrow> ret ()
             | Some intent \<Rightarrow>
                 if intent = 1 then
                   andthen (ensure_ws_send_message (ResponseAction ''openFile'' NoPayload))
                     (\<lambda>_. stream_template srv ''openFile'' False)
                 else if intent = 2 then stream_template srv ''saveFileNoFile'' False
                 else if intent = 3 then switch_lang_by_message srv
                 else if intent = 4 then stream_template srv ''about'' True
                 else if intent = 5 then stream_template srv ''casualChat'' True
                 else stream_not_understand srv)"

definition chat_in_editor :: "server \<Rightarrow> unit task" where
  "chat_in_editor srv =
     andthen (ask_intent srv ''chatEditor'')
       (\<lambda>r. case r of
               None \<Rightarrow> ret ()
             | Some intent \<Rightarrow>
                 if intent = 1 then
                   andthen (ensure_ws_send_message (ResponseAction ''openFile'' NoPayload))
                     (\<lambda>_. stream_template srv ''openFile'' False)
                 else if intent = 2 then
                   andthen (ensure_ws_send_message (ResponseAction ''saveFile'' NoPayload))
                     (\<lambda>_. stream_template srv ''saveFile'' False)
                 else if intent = 3 then switch_lang_by_message srv
                 else if intent = 4 then edit_photo srv
                 else if intent = 5 then crop_rotate srv
                 else if intent = 7 then describe_image srv
                 else if intent = 8 then stream_template srv ''about'' True
                 else if intent = 9 then stream_template srv ''casualChat'' True
                 else stream_not_understand srv)"

lemma steady_discard [simp, intro!]: "steady m \<Longrightarrow> steady (discard m)"
  by (auto simp: discard_def)

lemma steady_set_lang [simp, intro!]: "steady (set_lang l)"
  by (simp add: steady_def set_lang_def)

lemma steady_create_welcome_message [simp, intro!]: "steady (create_welcome_message srv)"
  by (auto simp: create_welcome_message_def)

lemma steady_create_image_opened_message [simp, intro!]:
  "steady (create_image_opened_message srv)"
  by (auto simp: create_image_opened_message_def split: option.splits)

lemma steady_create_auto_image_desc_message [simp, intro!]:
  "steady (create_auto_image_desc_message srv)"
  by (auto simp: create_auto_image_desc_message_def split: option.splits)

lemma steady_stream_not_understand [simp, intro!]: "steady (stream_not_understand srv)"
  by (auto simp: stream_not_understand_def)

lemma steady_last_message_of [simp, intro!]: "steady last_message_of"
  by (auto simp: last_message_of_def split: sum.splits)

lemma steady_switch_lang_by_message [simp, intro!]: "steady (switch_lang_by_message srv)"
  by (auto simp: switch_lang_by_message_def split: option.splits)

lemma steady_apply_adjustments [simp, intro!]:
  "steady (apply_adjustments srv original_setup p results)"
  by (auto simp: apply_adjustments_def Let_def split: option.splits json.splits)

lemma steady_adjust_by_prompt [simp, intro!]: "steady (adjust_by_prompt srv keys prompt_id)"
  by (auto simp: adjust_by_prompt_def Let_def split: sum.splits)

lemma steady_edit_photo [simp, intro!]: "steady (edit_photo srv)"
  by (simp add: edit_photo_def)

lemma steady_crop_rotate [simp, intro!]: "steady (crop_rotate srv)"
  by (simp add: crop_rotate_def)

lemma steady_describe_image [simp, intro!]: "steady (describe_image srv)"
  by (auto simp: describe_image_def split: option.splits)

lemma steady_stream_template [simp, intro!]: "steady (stream_template srv prompt_id b)"
  by (auto simp: stream_template_def)

lemma steady_ask_intent [simp, intro!]: "steady (ask_intent srv prompt_id)"
  by (auto simp: ask_intent_def split: option.splits)

lemma steady_chat_in_blank_page [simp, intro!]: "steady (chat_in_blank_page srv)"
  by (auto simp: chat_in_blank_page_def split: option.splits)

lemma steady_chat_in_editor [simp, intro!]: "steady (chat_in_editor srv)"
  by (auto simp: chat_in_editor_def split: option.splits)

subsection \<open>\<^verbatim>\<open>ws_llm_worker\<close> and \<^verbatim>\<open>ws_runtime\<close>\<close>

text \<open>
  The body of the loop of \<^verbatim>\<open>ws_llm_worker\<close> before its \<^verbatim>\<open>asyncio.sleep\<close>. The test
  \<^verbatim>\<open>if client_info['action']\<close> is the truth value of the action: None and the empty
  string are false.
\<close>

definition worker_turn :: "server \<Rightarrow> unit task" where
  "worker_turn srv w =
     (case action (ci w) of
        None \<Rightarrow> (Ret (), w)
      | Some data \<Rightarrow>
          if data = [] then (Ret (), w)
          else (let w1 = w\<lparr>ci := (ci w)\<lparr>action := None\<rparr>\<rparr>
                in if data = ''Welcome'' then create_welcome_message srv w1
                   else if data = ''ImageOpened'' then create_image_opened_message srv w1
                   else if data = ''Chat'' \<and> chatDetails (ci w1) \<noteq> None then
                     (if map_option page (chatDetails (ci w1)) = Some ''blank''
                      then chat_in_blank_page srv w1
                      else if map_option page (chatDetails (ci w1)) = Some ''editor''
                      then chat_in_editor srv w1
                      else (Ret (), w1))
                   else if data = ''AutoImageDesc'' then create_auto_image_desc_message srv w1
                   else (Ret (), w1)))"

lemma steady_worker_turn [simp, intro!]: "steady (worker_turn srv)"
  unfolding steady_def
proof
  fix w
  have *: "length (script (snd (m (w\<lparr>ci := c\<rparr>)))) \<le> length (script w)" if "steady m" for m :: "unit task" and c
    using that [unfolded steady_def, rule_format, of "w\<lparr>ci := c\<rparr>"] by simp
  show "length (script (snd (worker_turn srv w))) \<le> length (script w)"
    by (simp add: worker_turn_def Let_def * split: option.splits)
qed

function ws_llm_worker :: "server \<Rightarrow> unit task" where
  "ws_llm_worker srv w =
     (if \<not> conn_closed w \<and> registered w then
        (case worker_turn srv w of
           (Ret u, w1) \<Rightarrow>
             (case await w1 of
                None \<Rightarrow> (Blocked, w1)
              | Some (s, w2) \<Rightarrow> ws_llm_worker srv w2)
         | (Raise e, w1) \<Rightarrow> (Raise e, w1)
         | (Blocked, w1) \<Rightarrow> (Blocked, w1))
      else (Ret (), w))"
  by pat_completeness auto
termination
proof (relation "measure (\<lambda>(srv, w). length (script w))")
  show "wf (measure (\<lambda>(srv, w). length (script w)))"
    by simp
next
  fix srv :: server and w :: world and x w1 u x2 s w2
  assume t: "(x, w1) = worker_turn srv w" and a: "await w1 = Some x2" "(s, w2) = x2"
  from t have "length (script w1) \<le> length (script w)"
    by (metis steadyD steady_worker_turn)
  moreover from a have "length (script w2) < length (script w1)"
    by (auto dest: await_shorter)
  ultimately show "((srv, w2), srv, w) \<in> measure (\<lambda>(srv, w). length (script w))"
    by simp
qed

declare ws_llm_worker.simps [simp del]

text \<open>
  \<^verbatim>\<open>ws_runtime\<close>: the client data is created and registered, and the task group runs the
  two loops, the Receiver inside the awaits of the Worker (\<open>new_session\<close> is the state
  they start from). When the Worker raises, the group cancels the Receiver and the
  exception leaves the \<^verbatim>\<open>async with\<close> (in an \<^verbatim>\<open>ExceptionGroup\<close>; the result here
  names the exception of the Worker): the two statements after it are not reached.
  Otherwise they run when the loops have ended.
\<close>

definition new_session :: "nat \<Rightarrow> env_step list \<Rightarrow> world" where
  "new_session cid steps =
     \<lparr>ci = \<lparr>client_id = cid, lang = ''en'', action = None, status = Idle,
            chatDetails = None, fileName = None, client_images = None\<rparr>,
      conn_closed = False, registered = True, trace = [], script = steps\<rparr>"

definition ws_runtime :: "server \<Rightarrow> nat \<Rightarrow> env_step list \<Rightarrow> unit res \<times> world" where
  "ws_runtime srv cid steps =
     (case ws_llm_worker srv (new_session cid steps) of
        (Ret u, w') \<Rightarrow> (Ret (), w'\<lparr>ci := (ci w')\<lparr>status := Closed\<rparr>, registered := False\<rparr>)
      | (Raise e, w') \<Rightarrow> (Raise e, w')
      | (Blocked, w') \<Rightarrow> (Blocked, w'))"

section \<open>\<^verbatim>\<open>get_prompts\<close> on a store: what \<^verbatim>\<open>deepcopy\<close> shares\<close>

text \<open>
  The prompts of the catalog are mutable objects: a dict that refers to a list of message
  dicts, each of which may refer to a list of images, and to a list of stop words.
  To say what \<^verbatim>\<open>get_prompts\<close> shares with the catalog, the objects live in a store: a
  list of objects, an address being an index, and a new object being appended. Strings
  and numbers are immutable and are kept in the objects.
\<close>

type_synonym addr = nat

datatype pyobj =
    PromptObj addr "addr option" "string option" "string option" "string option"
      "string option"
  | MessagesObj "addr list"
  | MessageObj string string "addr option"
  | StringsObj "string list"

text \<open>
  \<open>PromptObj\<close>: the address of the list under \<^verbatim>\<open>messages\<close>, the address of the list
  under \<^verbatim>\<open>stop\<close> when the key is there, then the temperature, the model, the prefix and
  the JSON prefix. \<open>MessageObj\<close>: the role, the content and the address of the list under
  \<^verbatim>\<open>images\<close> when the key is there.
\<close>

type_synonym store = "pyobj list"

definition lookup :: "store \<Rightarrow> addr \<Rightarrow> pyobj option" where
  "lookup h a = (if a < length h then Some (h ! a) else None)"

definition alloc :: "pyobj \<Rightarrow> store \<Rightarrow> addr \<times> store" where
  "alloc obj h = (length h, h @ [obj])"

text \<open>
  \<^verbatim>\<open>deepcopy\<close> of a prompt: every list and dict it reaches is copied into a new object
  (the parts first, then the object that refers to them). The result is None when the
  store does not hold a prompt of the shape of \<^verbatim>\<open>IChatPrompt\<close> at the address. The
  prompts of the catalog come from \<^verbatim>\<open>json.loads\<close> and from a literal: no object is
  reached twice, so the memo of \<^verbatim>\<open>deepcopy\<close> is never hit.
\<close>

definition copy_strings :: "addr \<Rightarrow> store \<Rightarrow> (addr \<times> store) option" where
  "copy_strings a h =
     (case lookup h a of
        Some (StringsObj xs) \<Rightarrow> Some (alloc (StringsObj xs) h)
      | _ \<Rightarrow> None)"

definition copy_optional_strings ::
  "addr option \<Rightarrow> store \<Rightarrow> (addr option \<times> store) option" where
  "copy_optional_strings r h =
     (case r of
        None \<Rightarrow> Some (None, h)
      | Some a \<Rightarrow> map_option (\<lambda>(a', h'). (Some a', h')) (copy_strings a h))"

definition copy_message :: "addr \<Rightarrow> store \<Rightarrow> (addr \<times> store) option" where
  "copy_message a h =
     (case lookup h a of
        Some (MessageObj r c imgs) \<Rightarrow>
          (case copy_optional_strings imgs h of
             None \<Rightarrow> None
           | Some (imgs', h') \<Rightarrow> Some (alloc (MessageObj r c imgs') h'))
      | _ \<Rightarrow> None)"

fun copy_messages :: "addr list \<Rightarrow> store \<Rightarrow> (addr list \<times> store) option" where
  "copy_messages [] h = Some ([], h)"
| "copy_messages (a # as) h =
     (case copy_message a h of
        None \<Rightarrow> None
      | Some (a', h') \<Rightarrow>
          (case copy_messages as h' of
             None \<Rightarrow> None
           | Some (as', h'') \<Rightarrow> Some (a' # as', h'')))"

definition copy_prompt :: "addr \<Rightarrow> store \<Rightarrow> (addr \<times> store) option" where
  "copy_prompt a h =
     (case lookup h a of
        Some (PromptObj ms st t m pf jp) \<Rightarrow>
          (case lookup h ms of
             Some (MessagesObj as) \<Rightarrow>
               (case copy_messages as h of
                  None \<Rightarrow> None
                | Some (as', h1) \<Rightarrow>
                    (case alloc (MessagesObj as') h1 of
                       (ms', h2) \<Rightarrow>
                         (case copy_optional_strings st h2 of
                            None \<Rightarrow> None
                          | Some (st', h3) \<Rightarrow>
                              Some (alloc (PromptObj ms' st' t m pf jp) h3))))
           | _ \<Rightarrow> None)
      | _ \<Rightarrow> None)"

text \<open>The loop \<^verbatim>\<open>for msg in prompts['messages']\<close>: the content is assigned in place.\<close>

fun render_in_place :: "variables \<Rightarrow> addr list \<Rightarrow> store \<Rightarrow> store option" where
  "render_in_place data [] h = Some h"
| "render_in_place data (a # as) h =
     (case lookup h a of
        Some (MessageObj r c imgs) \<Rightarrow>
          render_in_place data as (h[a := MessageObj r (render_content data c) imgs])
      | _ \<Rightarrow> None)"

text \<open>
  The catalog \<^verbatim>\<open>self.prompts\<close> and the two entries of \<^verbatim>\<open>prompt_error_message\<close> as
  references into the store. \<^verbatim>\<open>get_prompts\<close> reads the two dicts and returns the address
  of the prompt it made, with the store it left.
\<close>

type_synonym catalog_refs = "string \<Rightarrow> (string \<Rightarrow> addr option) option"

text \<open>
  The argument of \<^verbatim>\<open>deepcopy\<close>: the prompt of the catalog, or the entry of
  \<^verbatim>\<open>prompt_error_message\<close> for the language, the English one by default.
\<close>

definition prompt_source :: "catalog_refs \<Rightarrow> addr \<Rightarrow> addr \<Rightarrow> string \<Rightarrow> string \<Rightarrow> addr" where
  "prompt_source cat error_en error_zh lng prompt_id =
     (case (case cat lng of None \<Rightarrow> None | Some m \<Rightarrow> m prompt_id) of
        Some a \<Rightarrow> a
      | None \<Rightarrow> if lng = ''zh'' then error_zh else error_en)"

definition get_prompts_store ::
  "catalog_refs \<Rightarrow> addr \<Rightarrow> addr \<Rightarrow> string \<Rightarrow> string \<Rightarrow> variables \<Rightarrow> store
     \<Rightarrow> (addr \<times> store) option" where
  "get_prompts_store cat error_en error_zh lng prompt_id data h =
     (case copy_prompt (prompt_source cat error_en error_zh lng prompt_id) h of
        None \<Rightarrow> None
      | Some (p, h1) \<Rightarrow>
          (case lookup h1 p of
             Some (PromptObj ms st t m pf jp) \<Rightarrow>
               (case lookup h1 ms of
                  Some (MessagesObj as) \<Rightarrow>
                    map_option (\<lambda>h2. (p, h2)) (render_in_place data as h1)
                | _ \<Rightarrow> None)
           | _ \<Rightarrow> None))"

text \<open>
  The addresses a prompt reaches: the prompt, its two lists, its messages and their lists
  of images. A write through the prompt \<^verbatim>\<open>get_prompts\<close> returned is a write at one of
  them.
\<close>

definition message_reach :: "store \<Rightarrow> addr \<Rightarrow> addr list" where
  "message_reach h a =
     a # (case lookup h a of Some (MessageObj r c (Some i)) \<Rightarrow> [i] | _ \<Rightarrow> [])"

definition prompt_reach :: "store \<Rightarrow> addr \<Rightarrow> addr list" where
  "prompt_reach h p =
     p # (case lookup h p of
            Some (PromptObj ms st t m pf jp) \<Rightarrow>
              ms # (case st of Some s \<Rightarrow> [s] | None \<Rightarrow> [])
                 @ (case lookup h ms of
                      Some (MessagesObj as) \<Rightarrow> concat (map (message_reach h) as)
                    | _ \<Rightarrow> [])
          | _ \<Rightarrow> [])"

text \<open>The prompt an address stands for, as the value \<open>get_prompts\<close> works on.\<close>

definition read_strings :: "store \<Rightarrow> addr option \<Rightarrow> string list option option" where
  "read_strings h r =
     (case r of
        None \<Rightarrow> Some None
      | Some a \<Rightarrow> (case lookup h a of Some (StringsObj xs) \<Rightarrow> Some (Some xs) | _ \<Rightarrow> None))"

definition read_message :: "store \<Rightarrow> addr \<Rightarrow> IChatMessage option" where
  "read_message h a =
     (case lookup h a of
        Some (MessageObj r c imgs) \<Rightarrow>
          map_option (\<lambda>i. \<lparr>role = r, content = c, images = i\<rparr>) (read_strings h imgs)
      | _ \<Rightarrow> None)"

fun read_messages :: "store \<Rightarrow> addr list \<Rightarrow> IChatMessage list option" where
  "read_messages h [] = Some []"
| "read_messages h (a # as) =
     (case read_message h a of
        None \<Rightarrow> None
      | Some m \<Rightarrow> map_option (\<lambda>ms. m # ms) (read_messages h as))"

definition read_prompt :: "store \<Rightarrow> addr \<Rightarrow> IChatPrompt option" where
  "read_prompt h p =
     (case lookup h p of
        Some (PromptObj ms st t m pf jp) \<Rightarrow>
          (case lookup h ms of
             Some (MessagesObj as) \<Rightarrow>
               (case (read_messages h as, read_strings h st) of
                  (Some msgs, Some stp) \<Rightarrow>
                    Some \<lparr>messages = msgs, stop = stp, temperature = t, model = m,
                          prefix = pf, jsonPrefix = jp\<rparr>
                | _ \<Rightarrow> None)
           | _ \<Rightarrow> None)
      | _ \<Rightarrow> None)"

section \<open>Properties of the template renderer\<close>

lemma not_ident_close: "\<not> is_ident_char CHR ''}''"
  by (simp add: is_ident_char_def)

lemma takeWhile_ident_key:
  "list_all is_ident_char key \<Longrightarrow> takeWhile is_ident_char (key @ CHR ''}'' # post) = key"
  by (induction key) (auto simp: not_ident_close)

lemma dropWhile_ident_key:
  "list_all is_ident_char key \<Longrightarrow>
     dropWhile is_ident_char (key @ CHR ''}'' # post) = CHR ''}'' # post"
  by (induction key) (auto simp: not_ident_close)

lemma template_match_lookbehind: "template_match (Some CHR ''{'') s = None"
  by (simp add: template_match_def split: list.splits)

lemma template_match_lookahead:
  "list_all is_ident_char key \<Longrightarrow>
     template_match prev (CHR ''{'' # key @ ''}}'' @ post) = None"
  by (simp add: template_match_def takeWhile_ident_key dropWhile_ident_key)

lemma template_sub_single_token:
  "key \<noteq> [] \<Longrightarrow> list_all is_ident_char key \<Longrightarrow> d key = Some v \<Longrightarrow>
     template_sub (Some d) None (CHR ''{'' # key @ ''}'') = v"
  by (simp add: template_match_def takeWhile_ident_key dropWhile_ident_key replace_content_def)

lemma template_sub_round_trip:
  "d ''name'' = Some ''X'' \<Longrightarrow> template_sub (Some d) None ''{{a}} {name} {{b}}'' = ''{{a}} X {{b}}''"
  by (simp add: template_match_def is_ident_char_def replace_content_def)

lemma render_round_trip:
  "d ''name'' = Some ''X'' \<Longrightarrow> render_content (Some d) ''{{a}} {name} {{b}}'' = ''{a} X {b}''"
  by (simp only: render_content_def template_sub_round_trip) simp

lemma render_value_with_token:
  "d ''a'' = Some ''{b}'' \<Longrightarrow> d ''b'' = Some ''Z'' \<Longrightarrow>
     render_content (Some d) ''{a}{b}'' = ''{b}Z''"
  by (simp add: render_content_def template_match_def is_ident_char_def replace_content_def)

lemma render_extra_open: "render_content data ''{{name}'' = ''{name}''"
  by (simp add: render_content_def template_match_def is_ident_char_def)

lemma render_extra_close: "render_content data ''{name}}'' = ''{name}''"
  by (simp add: render_content_def template_match_def is_ident_char_def)

text \<open>What \<open>get_prompts\<close> returns for a prompt of the catalog: every content rendered.\<close>

lemma get_prompts_found:
  assumes "cat lng = Some m" and "m prompt_id = Some p"
  shows "get_prompts cat lng prompt_id data
           = p\<lparr>messages :=
                 map (\<lambda>msg. msg\<lparr>content := render_content data (content msg)\<rparr>) (messages p)\<rparr>"
  using assms by (simp add: get_prompts_def lookup_prompt_def)

lemma get_prompts_content:
  assumes "cat lng = Some m" and "m prompt_id = Some p" and "i < length (messages p)"
  shows "content (messages (get_prompts cat lng prompt_id data) ! i)
           = render_content data (content (messages p ! i))"
  using assms by (simp add: get_prompts_def lookup_prompt_def)

text \<open>
  C6. \<open>get_prompts\<close> renders the content of every message of the prompt it finds in
  the catalog, by substituting the tokens first and resolving the doubled braces on the
  result. For every catalog that holds a prompt under the language and the key, and
  every message of that prompt: the role and the images of the message are kept; a
  content \<^verbatim>\<open>{{a}} {name} {{b}}\<close> with \<^verbatim>\<open>name\<close> bound to \<^verbatim>\<open>X\<close> comes out as
  \<^verbatim>\<open>{a} X {b}\<close>; a token's value reaches the output without being scanned for
  tokens (a content that is one token comes out as the value with its doubled braces
  resolved, whatever the value contains, and a value \<^verbatim>\<open>{b}\<close> stays \<^verbatim>\<open>{b}\<close> although
  \<^verbatim>\<open>b\<close> is bound); the contents \<^verbatim>\<open>{{name}\<close> and \<^verbatim>\<open>{name}}\<close> come out as
  \<^verbatim>\<open>{name}\<close>, not substituted, whatever the variables are, because the pattern matches
  neither after an opening brace nor when the closing brace is followed by another.
\<close>

theorem get_prompts_braces_after_substitution:
  assumes "cat lng = Some m" and "m prompt_id = Some p" and "i < length (messages p)"
  shows "length (messages (get_prompts cat lng prompt_id data)) = length (messages p)
     \<and> role (messages (get_prompts cat lng prompt_id data) ! i) = role (messages p ! i)
     \<and> images (messages (get_prompts cat lng prompt_id data) ! i) = images (messages p ! i)
     \<and> content (messages (get_prompts cat lng prompt_id data) ! i)
         = sub_open (sub_close (template_sub data None (content (messages p ! i))))
     \<and> (content (messages p ! i) = ''{{a}} {name} {{b}}'' \<and> d ''name'' = Some ''X'' \<longrightarrow>
          content (messages (get_prompts cat lng prompt_id (Some d)) ! i) = ''{a} X {b}'')
     \<and> (content (messages p ! i) = CHR ''{'' # key @ ''}''
          \<and> key \<noteq> [] \<and> list_all is_ident_char key \<and> d key = Some v \<longrightarrow>
          content (messages (get_prompts cat lng prompt_id (Some d)) ! i) = sub_open (sub_close v))
     \<and> (content (messages p ! i) = ''{a}{b}'' \<and> d ''a'' = Some ''{b}'' \<and> d ''b'' = Some ''Z'' \<longrightarrow>
          content (messages (get_prompts cat lng prompt_id (Some d)) ! i) = ''{b}Z'')
     \<and> (content (messages p ! i) = ''{{name}'' \<longrightarrow>
          content (messages (get_prompts cat lng prompt_id data) ! i) = ''{name}'')
     \<and> (content (messages p ! i) = ''{name}}'' \<longrightarrow>
          content (messages (get_prompts cat lng prompt_id data) ! i) = ''{name}'')
     \<and> template_match (Some CHR ''{'') s = None
     \<and> (list_all is_ident_char key \<longrightarrow>
          template_match prev (CHR ''{'' # key @ ''}}'' @ post) = None)"
proof -
  have c: "content (messages (get_prompts cat lng prompt_id data) ! i)
           = render_content data (content (messages p ! i))" for data
    using assms by (rule get_prompts_content [of cat lng m prompt_id p i])
  have 1: "length (messages (get_prompts cat lng prompt_id data)) = length (messages p)"
    using assms by (simp add: get_prompts_def lookup_prompt_def)
  have 2: "role (messages (get_prompts cat lng prompt_id data) ! i) = role (messages p ! i)"
    using assms by (simp add: get_prompts_def lookup_prompt_def)
  have 3: "images (messages (get_prompts cat lng prompt_id data) ! i) = images (messages p ! i)"
    using assms by (simp add: get_prompts_def lookup_prompt_def)
  have 4: "content (messages (get_prompts cat lng prompt_id data) ! i)
         = sub_open (sub_close (template_sub data None (content (messages p ! i))))"
    by (simp add: c render_content_def)
  have 5: "content (messages p ! i) = ''{{a}} {name} {{b}}'' \<and> d ''name'' = Some ''X'' \<longrightarrow>
          content (messages (get_prompts cat lng prompt_id (Some d)) ! i) = ''{a} X {b}''"
    by (simp add: c render_round_trip)
  have 6: "content (messages p ! i) = CHR ''{'' # key @ ''}''
          \<and> key \<noteq> [] \<and> list_all is_ident_char key \<and> d key = Some v \<longrightarrow>
          content (messages (get_prompts cat lng prompt_id (Some d)) ! i) = sub_open (sub_close v)"
  proof
    assume a: "content (messages p ! i) = CHR ''{'' # key @ ''}''
          \<and> key \<noteq> [] \<and> list_all is_ident_char key \<and> d key = Some v"
    then have "template_sub (Some d) None (CHR ''{'' # key @ ''}'') = v"
      using template_sub_single_token [of key d v] by simp
    with a show "content (messages (get_prompts cat lng prompt_id (Some d)) ! i)
        = sub_open (sub_close v)"
      by (simp add: c render_content_def)
  qed
  have 7: "content (messages p ! i) = ''{a}{b}'' \<and> d ''a'' = Some ''{b}'' \<and> d ''b'' = Some ''Z'' \<longrightarrow>
          content (messages (get_prompts cat lng prompt_id (Some d)) ! i) = ''{b}Z''"
    by (simp add: c render_value_with_token)
  have 8: "content (messages p ! i) = ''{{name}'' \<longrightarrow>
          content (messages (get_prompts cat lng prompt_id data) ! i) = ''{name}''"
    by (simp add: c render_extra_open)
  have 9: "content (messages p ! i) = ''{name}}'' \<longrightarrow>
          content (messages (get_prompts cat lng prompt_id data) ! i) = ''{name}''"
    by (simp add: c render_extra_close)
  have 10: "template_match (Some CHR ''{'') s = None"
    by (rule template_match_lookbehind)
  have 11: "list_all is_ident_char key \<longrightarrow>
          template_match prev (CHR ''{'' # key @ ''}}'' @ post) = None"
    by (rule impI) (rule template_match_lookahead)
  from 1 2 3 4 5 6 7 8 9 10 11 show ?thesis
    by (intro conjI)
qed

text \<open>
  A catalog with one prompt, whose two messages are a token and a text with doubled
  braces around a token: the value of the first, which holds a token and doubled braces,
  is not substituted again.
\<close>

definition token_prompt :: IChatPrompt where
  "token_prompt =
     \<lparr>messages = [\<lparr>role = ''system'', content = ''{who}'', images = None\<rparr>,
                  \<lparr>role = ''user'', content = ''{{a}} {name} {{b}}'', images = Some [''p'']\<rparr>],
      stop = None, temperature = None, model = None, prefix = None, jsonPrefix = None\<rparr>"

definition token_catalog :: catalog where
  "token_catalog =
     (\<lambda>l. if l = ''en'' then Some (\<lambda>k. if k = ''greet'' then Some token_prompt else None)
          else None)"

definition token_data :: "string \<Rightarrow> string option" where
  "token_data = [''who'' \<mapsto> ''{who} {{x}}'', ''name'' \<mapsto> ''X'']"

theorem get_prompts_braces_after_substitution_witness:
  "content (messages (get_prompts token_catalog ''en'' ''greet'' (Some token_data)) ! 0)
     = ''{who} {x}''
   \<and> content (messages (get_prompts token_catalog ''en'' ''greet'' (Some token_data)) ! 1)
     = ''{a} X {b}''
   \<and> images (messages (get_prompts token_catalog ''en'' ''greet'' (Some token_data)) ! 1)
     = Some [''p'']
   \<and> length (messages (get_prompts token_catalog ''en'' ''greet'' (Some token_data))) = 2
   \<and> template_match None ''{who}}!'' = None
   \<and> template_match None ''{who}'' = Some (''who'', [])"
proof -
  have cat: "token_catalog ''en'' = Some (\<lambda>k. if k = ''greet'' then Some token_prompt else None)"
    "(\<lambda>k. if k = ''greet'' then Some token_prompt else None) ''greet'' = Some token_prompt"
    by (simp_all add: token_catalog_def)
  have i0: "0 < length (messages token_prompt)" and i1: "1 < length (messages token_prompt)"
    by (simp_all add: token_prompt_def)
  have k: "content (messages token_prompt ! 0) = CHR ''{'' # ''who'' @ ''}''
      \<and> ''who'' \<noteq> [] \<and> list_all is_ident_char ''who''
      \<and> token_data ''who'' = Some ''{who} {{x}}''"
    by (simp add: token_prompt_def token_data_def is_ident_char_def)
  have n: "content (messages token_prompt ! 1) = ''{{a}} {name} {{b}}''
      \<and> token_data ''name'' = Some ''X''"
    by (simp add: token_prompt_def token_data_def)
  from get_prompts_braces_after_substitution
    [where cat = token_catalog and lng = "''en''" and prompt_id = "''greet''"
      and m = "\<lambda>k. if k = ''greet'' then Some token_prompt else None"
      and p = token_prompt and i = 0 and data = "Some token_data"
      and key = "''who''" and d = token_data and v = "''{who} {{x}}''"
      and prev = None and post = "''!''", OF cat i0] k
  have a: "content (messages (get_prompts token_catalog ''en'' ''greet'' (Some token_data)) ! 0)
      = sub_open (sub_close ''{who} {{x}}'')"
    and b: "template_match None (CHR ''{'' # ''who'' @ ''}}'' @ ''!'') = None"
    by blast+
  from get_prompts_braces_after_substitution
    [where cat = token_catalog and lng = "''en''" and prompt_id = "''greet''"
      and m = "\<lambda>k. if k = ''greet'' then Some token_prompt else None"
      and p = token_prompt and i = 1 and data = "Some token_data"
      and d = token_data, OF cat i1] n
  have c: "content (messages (get_prompts token_catalog ''en'' ''greet'' (Some token_data)) ! 1)
      = ''{a} X {b}''"
    and d: "images (messages (get_prompts token_catalog ''en'' ''greet'' (Some token_data)) ! 1)
      = images (messages token_prompt ! 1)"
    and e: "length (messages (get_prompts token_catalog ''en'' ''greet'' (Some token_data)))
      = length (messages token_prompt)"
    by blast+
  have f: "template_match None ''{who}'' = Some (''who'', [])"
    by (simp add: template_match_def is_ident_char_def)
  from a b c d e f show ?thesis
    by (simp add: token_prompt_def)
qed

lemma template_match_no_open: "CHR ''{'' \<notin> set s \<Longrightarrow> template_match prev s = None"
  by (cases s) (auto simp: template_match_def)

lemma template_sub_no_open: "CHR ''{'' \<notin> set s \<Longrightarrow> template_sub data prev s = s"
  by (induction s arbitrary: prev) (simp_all add: template_match_no_open)

lemma sub_close_no_close: "CHR ''}'' \<notin> set s \<Longrightarrow> sub_close s = s"
  by (induction s rule: sub_close.induct) auto

lemma sub_open_no_open: "CHR ''{'' \<notin> set s \<Longrightarrow> sub_open s = s"
  by (induction s rule: sub_open.induct) auto

lemma render_content_no_brace:
  "CHR ''{'' \<notin> set s \<Longrightarrow> CHR ''}'' \<notin> set s \<Longrightarrow> render_content data s = s"
  by (simp add: render_content_def template_sub_no_open sub_close_no_close sub_open_no_open)

lemma utf8_no_char:
  "list_all (\<lambda>n. n mod 256 \<noteq> of_char c) bs \<Longrightarrow> c \<notin> set (utf8 bs)"
proof
  assume all: "list_all (\<lambda>n. n mod 256 \<noteq> of_char c) bs" and "c \<in> set (utf8 bs)"
  then obtain n where n: "n \<in> set bs" "c = char_of n"
    by (auto simp: utf8_def)
  from n(2) have "(of_char c :: nat) = n mod 256"
    by (simp add: of_char_of)
  with all n(1) show False
    by (auto simp: list_all_iff)
qed

lemma render_error_en:
  "map (\<lambda>msg. msg\<lparr>content := render_content data (content msg)\<rparr>)
     (messages prompt_error_message_en) = messages prompt_error_message_en"
proof -
  have "render_content data
          ''Generate a message to tell someone that you've experienced an error.''
      = ''Generate a message to tell someone that you've experienced an error.''"
    by (rule render_content_no_brace) simp_all
  then show ?thesis by (simp add: prompt_error_message_en_def)
qed

lemma render_error_zh:
  "map (\<lambda>msg. msg\<lparr>content := render_content data (content msg)\<rparr>)
     (messages prompt_error_message_zh) = messages prompt_error_message_zh"
proof -
  have "\<And>s. content (hd (messages prompt_error_message_zh)) = s \<Longrightarrow> render_content data s = s"
    by (rule render_content_no_brace)
      (auto simp: prompt_error_message_zh_def intro!: utf8_no_char)
  then show ?thesis by (simp add: prompt_error_message_zh_def)
qed

lemma get_prompts_fallback:
  "lookup_prompt cat lng prompt_id = None \<Longrightarrow>
     get_prompts cat lng prompt_id data =
       (case prompt_error_message lng of Some e \<Rightarrow> e | None \<Rightarrow> prompt_error_message_en)"
  by (simp add: get_prompts_def prompt_error_message_def render_error_en render_error_zh)

text \<open>
  C7. When the catalog has no template under the language key and the template key (the
  language is missing, or the key is missing under it), \<open>get_prompts\<close> returns the
  built-in error template of that language, and the English one when the language has
  none; rendering leaves these templates as they are. \<open>get_prompts\<close> has no error
  result: it returns a prompt for every input.
\<close>

theorem get_prompts_missing_template:
  assumes "cat lng = None \<or> (\<exists>m. cat lng = Some m \<and> m prompt_id = None)"
  shows "get_prompts cat lng prompt_id data =
           (case prompt_error_message lng of
              Some e \<Rightarrow> e
            | None \<Rightarrow> prompt_error_message_en)
         \<and> (lng = ''en'' \<longrightarrow> get_prompts cat lng prompt_id data = prompt_error_message_en)
         \<and> (lng = ''zh'' \<longrightarrow> get_prompts cat lng prompt_id data = prompt_error_message_zh)
         \<and> (lng \<noteq> ''en'' \<and> lng \<noteq> ''zh'' \<longrightarrow>
              get_prompts cat lng prompt_id data = prompt_error_message_en)"
proof -
  from assms have "lookup_prompt cat lng prompt_id = None"
    by (auto simp: lookup_prompt_def)
  then have "get_prompts cat lng prompt_id data =
      (case prompt_error_message lng of Some e \<Rightarrow> e | None \<Rightarrow> prompt_error_message_en)"
    by (rule get_prompts_fallback)
  then show ?thesis
    by (auto simp: prompt_error_message_def)
qed

theorem get_prompts_missing_template_witness:
  "get_prompts (\<lambda>l. if l = ''en'' then Some (\<lambda>k. None) else None) ''zh'' ''welcome'' None
     = prompt_error_message_zh
   \<and> get_prompts (\<lambda>l. if l = ''en'' then Some (\<lambda>k. None) else None) ''en'' ''welcome'' None
     = prompt_error_message_en
   \<and> get_prompts (\<lambda>l. if l = ''en'' then Some (\<lambda>k. None) else None) ''fr'' ''welcome'' None
     = prompt_error_message_en"
  using get_prompts_missing_template
      [of "\<lambda>l. if l = ''en'' then Some (\<lambda>k. None) else None" "''zh''" "''welcome''" None]
    get_prompts_missing_template
      [of "\<lambda>l. if l = ''en'' then Some (\<lambda>k. None) else None" "''en''" "''welcome''" None]
    get_prompts_missing_template
      [of "\<lambda>l. if l = ''en'' then Some (\<lambda>k. None) else None" "''fr''" "''welcome''" None]
  by auto

section \<open>Properties of the conversation cache\<close>

text \<open>
  C9. When the chat details hold a cached conversation string, \<open>get_conversation\<close>
  returns it and changes nothing, whatever language and role names are passed. So a
  second call on the client data the first call left returns the first call's string,
  whatever language the second call asks for.
\<close>

theorem get_conversation_returns_cache:
  "(chatDetails client_info = Some cd \<and> conversation cd = Some cached \<longrightarrow>
      get_conversation client_info lng role_names = (cached, client_info))
   \<and> get_conversation (snd (get_conversation client_info lng1 names1)) lng2 names2
       = get_conversation client_info lng1 names1"
  by (auto simp: get_conversation_def Let_def split: option.splits)

definition example_client :: IClientData where
  "example_client =
     \<lparr>client_id = 1, lang = ''en'', action = None, status = Idle,
      chatDetails = Some \<lparr>page = ''blank'',
                          history = [\<lparr>role = ''user'', content = ''hi'', images = None\<rparr>],
                          conversation = None, editor_setup = None\<rparr>,
      fileName = None, client_images = None\<rparr>"

theorem get_conversation_returns_cache_witness:
  "fst (get_conversation example_client ''en'' None) = ''User: '' @ fence @ ''hi'' @ fence
   \<and> fst (get_conversation example_client ''zh'' None)
       = utf8 [228, 189, 191, 231, 148, 168, 232, 128, 133] @ '': '' @ fence @ ''hi'' @ fence
   \<and> fst (get_conversation (snd (get_conversation example_client ''zh'' None)) ''en'' None)
       = utf8 [228, 189, 191, 231, 148, 168, 232, 128, 133] @ '': '' @ fence @ ''hi'' @ fence
   \<and> get_conversation
       (example_client\<lparr>chatDetails :=
          Some \<lparr>page = ''blank'', history = [], conversation = Some ''old'',
                editor_setup = None\<rparr>\<rparr>) ''zh'' None
       = (''old'', example_client\<lparr>chatDetails :=
          Some \<lparr>page = ''blank'', history = [], conversation = Some ''old'',
                editor_setup = None\<rparr>\<rparr>)"
proof -
  have a: "fst (get_conversation example_client ''en'' None) = ''User: '' @ fence @ ''hi'' @ fence"
    by (simp add: get_conversation_def example_client_def default_role_names_def
        default_role_names_en_def conversation_line_def Let_def)
  have b: "fst (get_conversation example_client ''zh'' None)
       = utf8 [228, 189, 191, 231, 148, 168, 232, 128, 133] @ '': '' @ fence @ ''hi'' @ fence"
    by (simp add: get_conversation_def example_client_def default_role_names_def
        default_role_names_zh_def conversation_line_def Let_def)
  from get_conversation_returns_cache [where client_info = example_client and ?lng1.0 = "''zh''" and ?names1.0 = None
      and ?lng2.0 = "''en''" and ?names2.0 = None]
  have c: "get_conversation (snd (get_conversation example_client ''zh'' None)) ''en'' None
       = get_conversation example_client ''zh'' None"
    by blast
  from get_conversation_returns_cache
    [where client_info = "example_client\<lparr>chatDetails :=
          Some \<lparr>page = ''blank'', history = [], conversation = Some ''old'',
                editor_setup = None\<rparr>\<rparr>"
      and cd = "\<lparr>page = ''blank'', history = [], conversation = Some ''old'',
                editor_setup = None\<rparr>"
      and cached = "''old''" and lng = "''zh''" and role_names = None]
  have d: "get_conversation
       (example_client\<lparr>chatDetails :=
          Some \<lparr>page = ''blank'', history = [], conversation = Some ''old'',
                editor_setup = None\<rparr>\<rparr>) ''zh'' None
       = (''old'', example_client\<lparr>chatDetails :=
          Some \<lparr>page = ''blank'', history = [], conversation = Some ''old'',
                editor_setup = None\<rparr>\<rparr>)"
    by simp
  from a b c d show ?thesis by simp
qed

section \<open>Properties of the streaming delivery\<close>

lemma andthen_Ret:
  "andthen m f w = (Ret y, w') \<longleftrightarrow> (\<exists>x w1. m w = (Ret x, w1) \<and> f x w1 = (Ret y, w'))"
  by (cases "m w" rule: prod.exhaust [case_names Pair])
     (auto simp: andthen_def split: res.splits)

lemma ret_eq [simp]: "ret x w = (r, w') \<longleftrightarrow> r = Ret x \<and> w' = w"
  by (auto simp: ret_def)

lemma raise_eq [simp]: "raise e w = (r, w') \<longleftrightarrow> r = Raise e \<and> w' = w"
  by (auto simp: raise_def)

text \<open>
  Steps of the environment and sessions for the examples: a step in which nothing
  arrives and every operation succeeds (the reply has no message, the body has ended),
  a step whose send raises a \<^verbatim>\<open>WebSocketException\<close> other than
  \<^verbatim>\<open>ConnectionClosedError\<close>, and a session that is streaming (status Responding).
\<close>

definition quiet_step :: env_step where
  "quiet_step = \<lparr>inbound = [], closes = False, send_res = Delivered,
                 http_res = HttpResponse 200 None, line_res = EndOfBody\<rparr>"

definition failing_send :: env_step where
  "failing_send = quiet_step\<lparr>send_res := OtherWebSocketException\<rparr>"

definition streaming_world :: "env_step list \<Rightarrow> world" where
  "streaming_world steps =
     \<lparr>ci = \<lparr>client_id = 1, lang = ''en'', action = None, status = Responding,
            chatDetails = None, fileName = None, client_images = None\<rparr>,
      conn_closed = False, registered = True, trace = [], script = steps\<rparr>"

text \<open>
  A script in which no inbound message carries an action: the call is not interrupted.
  The frames that were delivered, in order; whether a chunk with a \<^verbatim>\<open>message\<close> was read;
  a \<^verbatim>\<open>response\<close> frame with the tag of the call.
\<close>

definition no_action :: "inbound \<Rightarrow> bool" where
  "no_action m = (case m of Malformed \<Rightarrow> True | Frame data \<Rightarrow> f_action data = None)"

definition uninterrupted :: "env_step list \<Rightarrow> bool" where
  "uninterrupted steps = list_all (\<lambda>s. list_all no_action (inbound s)) steps"

fun delivered :: "event list \<Rightarrow> frame list" where
  "delivered [] = []"
| "delivered (Sent f Delivered # evs) = f # delivered evs"
| "delivered (e # evs) = delivered evs"

fun has_message :: "event list \<Rightarrow> bool" where
  "has_message [] = False"
| "has_message (Chunk (Some m) # evs) = True"
| "has_message (e # evs) = has_message evs"

fun is_response :: "string option \<Rightarrow> frame \<Rightarrow> bool" where
  "is_response act (Response t a) = (a = act)"
| "is_response act f = False"

lemma delivered_append [simp]: "delivered (xs @ ys) = delivered xs @ delivered ys"
  by (induction xs rule: delivered.induct) simp_all

lemma has_message_append [simp]: "has_message (xs @ ys) = (has_message xs \<or> has_message ys)"
  by (induction xs rule: has_message.induct) simp_all

lemma ws_receiver_message_no_action:
  "no_action m \<Longrightarrow> status (ws_receiver_message c m) = status c"
  by (auto simp: no_action_def ws_receiver_message_def Let_def split: inbound.splits option.splits)

lemma ws_receiver_no_action:
  "list_all no_action ms \<Longrightarrow> status (ws_receiver c ms) = status c"
  unfolding ws_receiver_def
  by (induction ms arbitrary: c) (simp_all add: ws_receiver_message_no_action)

lemma await_uninterrupted:
  assumes "uninterrupted (script w)" and "await w = Some (s, w')"
  shows "uninterrupted (script w') \<and> status (ci w') = status (ci w) \<and> trace w' = trace w"
  using assms
  by (auto simp: await_def uninterrupted_def ws_receiver_no_action split: list.splits)

lemma client_send_uninterrupted:
  assumes "uninterrupted (script w)" and "client_send f w = (Ret r, w')"
  shows "uninterrupted (script w') \<and> status (ci w') = status (ci w)
       \<and> trace w' = trace w @ [Sent f r]"
proof -
  from assms(2) obtain s w1 where a: "await w = Some (s, w1)"
    and w': "w' = w1\<lparr>trace := trace w1 @ [Sent f (send_res s)]\<rparr>" and r: "r = send_res s"
    by (auto simp: client_send_def split: option.splits)
  from await_uninterrupted [OF assms(1) a] w' r show ?thesis
    by simp
qed

lemma ensure_ws_send_message_uninterrupted:
  assumes "uninterrupted (script w)" and "ensure_ws_send_message f w = (Ret True, w')"
  shows "uninterrupted (script w') \<and> status (ci w') = status (ci w)
       \<and> trace w' = trace w @ [Sent f Delivered]"
proof -
  from assms(2) obtain r w1 where s: "client_send f w = (Ret r, w1)"
    and k: "(case r of
               Delivered \<Rightarrow> ret True
             | ConnectionClosedError \<Rightarrow> ret False
             | OtherWebSocketException \<Rightarrow> raise WebSocketException) w1 = (Ret True, w')"
    by (auto simp: ensure_ws_send_message_def andthen_Ret split: if_splits)
  from k have "r = Delivered \<and> w' = w1"
    by (cases r) auto
  with client_send_uninterrupted [OF assms(1) s] show ?thesis
    by simp
qed

text \<open>
  What a stretch of the loop may have done, from the status it started with to the
  status it ended with: once Responding it delivers \<^verbatim>\<open>response\<close> frames only; from
  Working it delivers nothing until a chunk with a message is read, and then the
  \<^verbatim>\<open>responseStart\<close> frame first.
\<close>

definition streamed ::
  "string option \<Rightarrow> ClientStatusEnum \<Rightarrow> event list \<Rightarrow> ClientStatusEnum \<Rightarrow> bool" where
  "streamed act st evs st' =
     (if st = Responding
      then st' = Responding \<and> list_all (is_response act) (delivered evs)
      else if has_message evs
      then st' = Responding
           \<and> (\<exists>rs. delivered evs = ResponseStart act # rs \<and> list_all (is_response act) rs)
      else st' = st \<and> delivered evs = [])"

lemma streamed_nil [simp]: "streamed act st [] st"
  by (simp add: streamed_def)

lemma streamed_trans:
  assumes "streamed act st evs1 st1" and "streamed act st1 evs2 st2"
  shows "streamed act st (evs1 @ evs2) st2"
proof (cases "st = Responding")
  case True
  with assms show ?thesis by (auto simp: streamed_def)
next
  case start: False
  show ?thesis
  proof (cases "has_message evs1")
    case True
    with start assms(1) obtain rs where 1: "st1 = Responding"
      "delivered evs1 = ResponseStart act # rs" "list_all (is_response act) rs"
      by (auto simp: streamed_def)
    with assms(2) have "list_all (is_response act) (delivered evs2)" "st2 = Responding"
      by (auto simp: streamed_def)
    with 1 True start show ?thesis
      by (auto simp: streamed_def)
  next
    case False
    with start assms(1) have "st1 = st" "delivered evs1 = []"
      by (auto simp: streamed_def)
    with assms(2) False start show ?thesis
      by (auto simp: streamed_def)
  qed
qed

lemma send_text_uninterrupted:
  assumes "uninterrupted (script w)" and "send_text act p t w = (Ret (Continue p'), w')"
  shows "uninterrupted (script w') \<and> status (ci w') = status (ci w)
       \<and> (\<exists>r. trace w' = trace w @ [Sent (Response (p @ t) act) r])"
proof -
  from assms(2) obtain r w1 where s: "client_send (Response (p @ t) act) w = (Ret r, w1)"
    and k: "(case r of
               Delivered \<Rightarrow> ret (Continue [])
             | ConnectionClosedError \<Rightarrow> ret ReturnFalse
             | OtherWebSocketException \<Rightarrow> ret (Continue (p @ t))) w1 = (Ret (Continue p'), w')"
    by (auto simp: send_text_def Let_def andthen_Ret)
  from k have "w' = w1"
    by (cases r) auto
  with client_send_uninterrupted [OF assms(1) s] show ?thesis
    by auto
qed

lemma delivered_response [simp]:
  "list_all (is_response act) (delivered [Sent (Response t act) r])"
  by (cases r) simp_all

text \<open>One turn of the loop, with the chunk it read.\<close>

lemma stream_chunk_uninterrupted:
  assumes u: "uninterrupted (script w)"
    and st: "status (ci w) = Working \<or> status (ci w) = Responding"
    and run: "stream_chunk act p c w = (Ret (Continue p'), w')"
  shows "uninterrupted (script w')
       \<and> (\<exists>evs. trace w' = trace w @ evs
                \<and> streamed act (status (ci w)) (Chunk c # evs) (status (ci w')))"
proof (cases c)
  case None
  with run have "w' = w"
    by (auto simp: stream_chunk_def split: if_splits)
  with u None st show ?thesis
    by (auto simp: streamed_def)
next
  case (Some m)
  from run Some obtain wa where
    first: "(if status (ci w) = Working
             then andthen (set_status Responding)
                    (\<lambda>_. ensure_ws_send_message (ResponseStart act))
             else ret True) w = (Ret True, wa)"
    and rest: "(case chunk_text m of
                  None \<Rightarrow> ret (Continue p)
                | Some t \<Rightarrow> if t = [] then ret (Continue p) else send_text act p t) wa
               = (Ret (Continue p'), w')"
    by (auto simp: stream_chunk_def andthen_Ret split: if_splits)
  have a: "uninterrupted (script wa) \<and> status (ci wa) = Responding
        \<and> (\<exists>e1. trace wa = trace w @ e1
                \<and> delivered e1 = (if status (ci w) = Working then [ResponseStart act] else []))"
  proof (cases "status (ci w) = Working")
    case True
    with first have e: "ensure_ws_send_message (ResponseStart act)
        (w\<lparr>ci := (ci w)\<lparr>status := Responding\<rparr>\<rparr>) = (Ret True, wa)"
      by (auto simp: andthen_Ret set_status_def)
    from u have "uninterrupted (script (w\<lparr>ci := (ci w)\<lparr>status := Responding\<rparr>\<rparr>))"
      by simp
    from ensure_ws_send_message_uninterrupted [OF this e] True show ?thesis
      by simp
  next
    case False
    with first st u show ?thesis by auto
  qed
  then obtain e1 where e1: "trace wa = trace w @ e1"
    "delivered e1 = (if status (ci w) = Working then [ResponseStart act] else [])"
    and ua: "uninterrupted (script wa)" and sa: "status (ci wa) = Responding"
    by blast
  have b: "uninterrupted (script w') \<and> status (ci w') = Responding
        \<and> (\<exists>e2. trace w' = trace wa @ e2 \<and> list_all (is_response act) (delivered e2))"
  proof (cases "\<exists>t. chunk_text m = Some t \<and> t \<noteq> []")
    case True
    then obtain t where "chunk_text m = Some t" "t \<noteq> []" by blast
    with rest have "send_text act p t wa = (Ret (Continue p'), w')"
      by simp
    from send_text_uninterrupted [OF ua this] sa show ?thesis
      by auto
  next
    case False
    with rest have "w' = wa"
      by (auto split: option.splits if_splits)
    with ua sa show ?thesis by auto
  qed
  then obtain e2 where e2: "trace w' = trace wa @ e2"
    "list_all (is_response act) (delivered e2)"
    and u': "uninterrupted (script w')" and s': "status (ci w') = Responding"
    by blast
  from e1 e2 have "trace w' = trace w @ (e1 @ e2)"
    by simp
  moreover from e1 e2 s' st Some
  have "streamed act (status (ci w)) (Chunk c # e1 @ e2) (status (ci w'))"
    by (auto simp: streamed_def)
  ultimately show ?thesis
    using u' by blast
qed

lemma stream_loop_uninterrupted:
  "uninterrupted (script w) \<Longrightarrow> status (ci w) = Working \<or> status (ci w) = Responding \<Longrightarrow>
   stream_loop act p w = (Ret (Some p'), w') \<Longrightarrow>
     uninterrupted (script w')
     \<and> (status (ci w') = Working \<or> status (ci w') = Responding)
     \<and> (\<exists>evs. trace w' = trace w @ evs \<and> streamed act (status (ci w)) evs (status (ci w')))"
proof (induction act p w arbitrary: p' w' rule: stream_loop.induct)
  case (1 act prev_msg w)
  note u = "1.prems"(1) and st = "1.prems"(2) and run = "1.prems"(3)
  from run obtain s w1 where a: "await w = Some (s, w1)"
    by (cases "await w") (auto simp: stream_loop.simps [of act prev_msg w])
  from await_uninterrupted [OF u a]
  have u1: "uninterrupted (script w1)" and s1: "status (ci w1) = status (ci w)"
    and t1: "trace w1 = trace w"
    by simp_all
  show ?case
  proof (cases "line_res s")
    case EndOfBody
    with run a have "w' = w1"
      by (simp add: stream_loop.simps [of act prev_msg w])
    with u1 s1 t1 st show ?thesis by auto
  next
    case (LineError e)
    with run a show ?thesis
      by (simp add: stream_loop.simps [of act prev_msg w])
  next
    case (Line chunk_data)
    let ?w1 = "w1\<lparr>trace := trace w1 @ [Chunk chunk_data]\<rparr>"
    obtain r w2 where sc: "stream_chunk act prev_msg chunk_data ?w1 = (r, w2)"
      by (cases "stream_chunk act prev_msg chunk_data ?w1")
    from run a Line sc obtain q where r: "r = Ret (Continue q)"
      and rec: "stream_loop act q w2 = (Ret (Some p'), w')"
      by (auto simp: stream_loop.simps [of act prev_msg w] split: res.splits turn.splits)
    from u1 have u1': "uninterrupted (script ?w1)" by simp
    from st s1 have st1': "status (ci ?w1) = Working \<or> status (ci ?w1) = Responding" by simp
    from stream_chunk_uninterrupted [OF u1' st1' sc [unfolded r]]
    obtain e1 where u2: "uninterrupted (script w2)"
      and e1: "trace w2 = trace ?w1 @ e1"
      "streamed act (status (ci ?w1)) (Chunk chunk_data # e1) (status (ci w2))"
      by blast
    from e1(2) st1' have st2: "status (ci w2) = Working \<or> status (ci w2) = Responding"
      by (auto simp: streamed_def split: if_splits)
    from "1.IH" [OF a refl Line sc [symmetric] r refl u2 st2 rec]
    obtain e2 where u': "uninterrupted (script w')"
      and s': "status (ci w') = Working \<or> status (ci w') = Responding"
      and e2: "trace w' = trace w2 @ e2" "streamed act (status (ci w2)) e2 (status (ci w'))"
      by blast
    from e1(1) e2(1) t1 have "trace w' = trace w @ ((Chunk chunk_data # e1) @ e2)"
      by simp
    moreover from streamed_trans [OF e1(2) e2(2)] s1
    have "streamed act (status (ci w)) ((Chunk chunk_data # e1) @ e2) (status (ci w'))"
      by simp
    ultimately show ?thesis
      using u' s' by blast
  qed
qed

lemma stream_finish_uninterrupted:
  assumes u: "uninterrupted (script w)"
    and run: "stream_finish flag_idle act p w = (Ret True, w')"
  shows "\<exists>evs. trace w' = trace w @ evs \<and> \<not> has_message evs
           \<and> delivered evs = (if p \<noteq> [] then [Response p act] else []) @ [ResponseEnd act]"
proof -
  from run obtain wa wb where
    first: "(if p \<noteq> [] then ensure_ws_send_message (Response p act) else ret True) w
              = (Ret True, wa)"
    and second: "ensure_ws_send_message (ResponseEnd act) wa = (Ret True, wb)"
    and last: "trace w' = trace wb"
    by (auto simp: stream_finish_def andthen_Ret get_ci_def set_status_def
        split: if_splits)
  have a: "uninterrupted (script wa)
        \<and> trace wa = trace w @ (if p \<noteq> [] then [Sent (Response p act) Delivered] else [])"
  proof (cases "p \<noteq> []")
    case True
    with first have "ensure_ws_send_message (Response p act) w = (Ret True, wa)"
      by simp
    from ensure_ws_send_message_uninterrupted [OF u this] True show ?thesis
      by simp
  next
    case False
    with first u show ?thesis by simp
  qed
  then have ua: "uninterrupted (script wa)" by simp
  from ensure_ws_send_message_uninterrupted [OF ua second] a last
  have "trace w' = trace w @ ((if p \<noteq> [] then [Sent (Response p act) Delivered] else [])
                               @ [Sent (ResponseEnd act) Delivered])"
    by simp
  then show ?thesis
    by (intro exI [of _ "(if p \<noteq> [] then [Sent (Response p act) Delivered] else [])
                               @ [Sent (ResponseEnd act) Delivered]"]) simp
qed

lemma stream_from_llm_uninterrupted:
  assumes "uninterrupted (script w)" and "stream_from_llm p w = (Ret u, w')"
  shows "uninterrupted (script w') \<and> status (ci w') = status (ci w)
       \<and> trace w' = trace w @ [Generate True p (status (ci w))]"
proof -
  let ?w = "w\<lparr>trace := trace w @ [Generate True p (status (ci w))]\<rparr>"
  from assms(2) obtain s where a: "await ?w = Some (s, w')"
    by (auto simp: stream_from_llm_def Let_def
        split: option.splits http_result.splits if_splits)
  from assms(1) have "uninterrupted (script ?w)" by simp
  from await_uninterrupted [OF this a] show ?thesis
    by simp
qed

text \<open>
  C3, as the code has it. A call of \<open>stream_prompts\<close> that returns True, during which no
  inbound message carries an action, has delivered: the \<^verbatim>\<open>responseStart\<close> frame if a chunk
  with a \<^verbatim>\<open>message\<close> was read and no such frame otherwise, then \<^verbatim>\<open>response\<close> frames only
  (zero or more), then the \<^verbatim>\<open>responseEnd\<close> frame, all with the tag of the call.
\<close>

theorem stream_prompts_frame_order:
  assumes "uninterrupted (script w)"
    and "stream_prompts p flag_idle act w = (Ret True, w')"
  shows "\<exists>evs rs. trace w' = trace w @ evs
           \<and> list_all (is_response act) rs
           \<and> delivered evs
               = (if has_message evs then [ResponseStart act] else []) @ rs @ [ResponseEnd act]"
proof -
  let ?w0 = "w\<lparr>ci := (ci w)\<lparr>status := Working\<rparr>\<rparr>"
  from assms(2) obtain w1 w2 prev_msg where
    open_: "stream_from_llm p ?w0 = (Ret (), w1)"
    and loop: "stream_loop act [] w1 = (Ret (Some prev_msg), w2)"
    and fin: "stream_finish flag_idle act prev_msg w2 = (Ret True, w')"
    by (auto simp: stream_prompts_def stream_rest_def andthen_Ret set_status_def
        split: option.splits)
  from assms(1) have "uninterrupted (script ?w0)" by simp
  from stream_from_llm_uninterrupted [OF this open_]
  have u1: "uninterrupted (script w1)" and s1: "status (ci w1) = Working"
    and t1: "trace w1 = trace w @ [Generate True p Working]"
    by simp_all
  from stream_loop_uninterrupted [OF u1 _ loop] s1
  obtain e2 where u2: "uninterrupted (script w2)"
    and t2: "trace w2 = trace w1 @ e2" and b: "streamed act Working e2 (status (ci w2))"
    by auto
  from stream_finish_uninterrupted [OF u2 fin]
  obtain e3 where t3: "trace w' = trace w2 @ e3" and n3: "\<not> has_message e3"
    and d3: "delivered e3 = (if prev_msg \<noteq> [] then [Response prev_msg act] else [])
                             @ [ResponseEnd act]"
    by blast
  let ?evs = "Generate True p Working # e2 @ e3"
  let ?tail = "if prev_msg \<noteq> [] then [Response prev_msg act] else []"
  have tail: "list_all (is_response act) ?tail" by simp
  from t1 t2 t3 have tr: "trace w' = trace w @ ?evs" by simp
  have hm: "has_message ?evs = has_message e2" using n3 by simp
  show ?thesis
  proof (cases "has_message e2")
    case True
    with b obtain rs where rs: "delivered e2 = ResponseStart act # rs"
      "list_all (is_response act) rs"
      by (auto simp: streamed_def)
    from rs d3 hm True
    have "delivered ?evs = (if has_message ?evs then [ResponseStart act] else [])
             @ (rs @ ?tail) @ [ResponseEnd act]"
      by simp
    moreover from rs(2) tail have "list_all (is_response act) (rs @ ?tail)"
      by simp
    ultimately show ?thesis using tr by blast
  next
    case False
    with b have "delivered e2 = []"
      by (auto simp: streamed_def)
    with d3 hm False
    have "delivered ?evs = (if has_message ?evs then [ResponseStart act] else [])
             @ ?tail @ [ResponseEnd act]"
      by simp
    with tail tr show ?thesis by blast
  qed
qed

lemmas run_defs =
  stream_prompts_def stream_rest_def stream_finish_def stream_from_llm_def
  stream_chunk_def send_text_def chunk_text_def ensure_ws_send_message_def client_send_def
  await_def ws_receiver_def ws_receiver_message_def andthen_def ret_def raise_def
  get_ci_def set_ci_def set_status_def Let_def stream_loop.simps

definition idle_world :: "env_step list \<Rightarrow> world" where
  "idle_world steps =
     \<lparr>ci = \<lparr>client_id = 1, lang = ''en'', action = None, status = Idle,
            chatDetails = None, fileName = None, client_images = None\<rparr>,
      conn_closed = False, registered = True, trace = [], script = steps\<rparr>"

definition hello_script :: "env_step list" where
  "hello_script =
     [quiet_step,
      quiet_step\<lparr>line_res := Line (Some (MessageDict (Some ''Hello'')))\<rparr>,
      quiet_step, quiet_step, quiet_step, quiet_step]"

lemma hello_run:
  "stream_prompts prompt_error_message_en True (Some ''Welcome'') (idle_world hello_script)
     = (Ret True,
        (idle_world [])\<lparr>trace :=
           [Generate True prompt_error_message_en Working,
            Chunk (Some (MessageDict (Some ''Hello''))),
            Sent (ResponseStart (Some ''Welcome'')) Delivered,
            Sent (Response ''Hello'' (Some ''Welcome'')) Delivered,
            Sent (ResponseEnd (Some ''Welcome'')) Delivered]\<rparr>)"
  by (simp add: run_defs idle_world_def hello_script_def quiet_step_def)

theorem stream_prompts_frame_order_witness:
  "uninterrupted (script (idle_world hello_script))
   \<and> fst (stream_prompts prompt_error_message_en True (Some ''Welcome'')
            (idle_world hello_script)) = Ret True
   \<and> delivered (trace (snd (stream_prompts prompt_error_message_en True (Some ''Welcome'')
                               (idle_world hello_script))))
       = [ResponseStart (Some ''Welcome''), Response ''Hello'' (Some ''Welcome''),
          ResponseEnd (Some ''Welcome'')]
   \<and> (\<exists>evs rs.
         trace (snd (stream_prompts prompt_error_message_en True (Some ''Welcome'')
                       (idle_world hello_script)))
           = trace (idle_world hello_script) @ evs
         \<and> list_all (is_response (Some ''Welcome'')) rs
         \<and> delivered evs
             = (if has_message evs then [ResponseStart (Some ''Welcome'')] else [])
               @ rs @ [ResponseEnd (Some ''Welcome'')])"
proof -
  have u: "uninterrupted (script (idle_world hello_script))"
    by (simp add: uninterrupted_def idle_world_def hello_script_def quiet_step_def)
  from stream_prompts_frame_order [OF u hello_run]
  have "\<exists>evs rs.
         trace ((idle_world [])\<lparr>trace :=
           [Generate True prompt_error_message_en Working,
            Chunk (Some (MessageDict (Some ''Hello''))),
            Sent (ResponseStart (Some ''Welcome'')) Delivered,
            Sent (Response ''Hello'' (Some ''Welcome'')) Delivered,
            Sent (ResponseEnd (Some ''Welcome'')) Delivered]\<rparr>)
           = trace (idle_world hello_script) @ evs
         \<and> list_all (is_response (Some ''Welcome'')) rs
         \<and> delivered evs
             = (if has_message evs then [ResponseStart (Some ''Welcome'')] else [])
               @ rs @ [ResponseEnd (Some ''Welcome'')]" .
  with u show ?thesis
    unfolding hello_run fst_conv snd_conv by simp
qed

text \<open>
  C3 as stated fails when no chunk carries a \<^verbatim>\<open>message\<close>, as when the body of the reply
  is empty: the call returns True and has delivered the \<^verbatim>\<open>responseEnd\<close> frame alone.
\<close>

theorem stream_prompts_no_start_counterexample:
  "uninterrupted [quiet_step, quiet_step, quiet_step]
   \<and> fst (stream_prompts prompt_error_message_en True (Some ''Welcome'')
            (idle_world [quiet_step, quiet_step, quiet_step])) = Ret True
   \<and> delivered (trace (snd (stream_prompts prompt_error_message_en True (Some ''Welcome'')
                               (idle_world [quiet_step, quiet_step, quiet_step]))))
       = [ResponseEnd (Some ''Welcome'')]"
  by (simp add: run_defs idle_world_def quiet_step_def uninterrupted_def)

text \<open>
  Steps during which the session goes on: no inbound message carries an action and the
  connection stays open. A step in which a fragment with a text is read. A stretch of
  the script in which fragment after fragment is read and the send of each raises a
  \<^verbatim>\<open>WebSocketException\<close> other than \<^verbatim>\<open>ConnectionClosedError\<close>, with the texts of the
  fragments. A session whose call of \<open>stream_prompts\<close> has sent its \<^verbatim>\<open>responseStart\<close>
  frame and goes on.
\<close>

definition quiet :: "env_step \<Rightarrow> bool" where
  "quiet s = (list_all no_action (inbound s) \<and> \<not> closes s)"

definition text_line :: "env_step \<Rightarrow> string \<Rightarrow> bool" where
  "text_line s t =
     (quiet s \<and> t \<noteq> []
      \<and> (case line_res s of Line (Some m) \<Rightarrow> chunk_text m = Some t | _ \<Rightarrow> False))"

fun failed_sends :: "env_step list \<Rightarrow> string list \<Rightarrow> bool" where
  "failed_sends [] ts = (ts = [])"
| "failed_sends [l] ts = False"
| "failed_sends (l # s # steps) ts =
     (case ts of
        [] \<Rightarrow> False
      | t # ts' \<Rightarrow>
          text_line l t \<and> quiet s \<and> send_res s = OtherWebSocketException
          \<and> failed_sends steps ts')"

definition ok_reply :: "env_step \<Rightarrow> bool" where
  "ok_reply s =
     (quiet s \<and> (case http_res s of HttpResponse code body \<Rightarrow> code = 200 | _ \<Rightarrow> False))"

definition streaming :: "world \<Rightarrow> bool" where
  "streaming w = (registered w \<and> \<not> conn_closed w \<and> status (ci w) = Responding)"

lemma quiet_status: "quiet s \<Longrightarrow> status (ws_receiver c (inbound s)) = status c"
  by (simp add: quiet_def ws_receiver_no_action)

lemma text_lineD:
  assumes "text_line l t"
  obtains m where "line_res l = Line (Some m)" and "chunk_text m = Some t" and "t \<noteq> []"
    and "quiet l"
  using assms
  by (auto simp: text_line_def split: stream_line.splits option.splits)

text \<open>One turn of the loop whose send raises: the text stays unsent, after the text before.\<close>

lemma stream_loop_failed_send:
  assumes w: "streaming w" and scr: "script w = l # s # rest"
    and l: "text_line l t" and s: "quiet s" "send_res s = OtherWebSocketException"
  shows "\<exists>w'. stream_loop act p w = stream_loop act (p @ t) w' \<and> script w' = rest
           \<and> streaming w' \<and> delivered (trace w') = delivered (trace w)"
proof -
  from l obtain m where m: "line_res l = Line (Some m)" "chunk_text m = Some t" "t \<noteq> []"
    and ql: "quiet l"
    by (rule text_lineD)
  let ?c1 = "ws_receiver (ci w) (inbound l)"
  let ?c2 = "ws_receiver ?c1 (inbound s)"
  let ?w' = "w\<lparr>ci := ?c2, conn_closed := False, script := rest,
               trace := trace w @ [Chunk (Some m),
                                   Sent (Response (p @ t) act) OtherWebSocketException]\<rparr>"
  from w ql have s1: "status ?c1 = Responding"
    by (simp add: quiet_status streaming_def)
  with s(1) have s2: "status ?c2 = Responding"
    by (simp add: quiet_status)
  from ql s(1) have c: "\<not> closes l" "\<not> closes s"
    by (simp_all add: quiet_def)
  from w have r: "registered w" "\<not> conn_closed w"
    by (simp_all add: streaming_def)
  have "stream_loop act p w = stream_loop act (p @ t) ?w'"
    by (subst stream_loop.simps)
       (simp add: scr m s(2) s1 c r await_def stream_chunk_def send_text_def client_send_def
          andthen_def ret_def Let_def)
  moreover have "streaming ?w'"
    using r s2 by (simp add: streaming_def)
  ultimately show ?thesis
    by (intro exI [of _ ?w']) simp
qed

text \<open>One turn of the loop whose send is delivered: all the unsent text has gone out.\<close>

lemma stream_loop_delivered_send:
  assumes w: "streaming w" and scr: "script w = l # s # rest"
    and l: "text_line l t" and s: "quiet s" "send_res s = Delivered"
  shows "\<exists>w'. stream_loop act p w = stream_loop act [] w' \<and> script w' = rest
           \<and> streaming w'
           \<and> delivered (trace w') = delivered (trace w) @ [Response (p @ t) act]"
proof -
  from l obtain m where m: "line_res l = Line (Some m)" "chunk_text m = Some t" "t \<noteq> []"
    and ql: "quiet l"
    by (rule text_lineD)
  let ?c1 = "ws_receiver (ci w) (inbound l)"
  let ?c2 = "ws_receiver ?c1 (inbound s)"
  let ?w' = "w\<lparr>ci := ?c2, conn_closed := False, script := rest,
               trace := trace w @ [Chunk (Some m), Sent (Response (p @ t) act) Delivered]\<rparr>"
  from w ql have s1: "status ?c1 = Responding"
    by (simp add: quiet_status streaming_def)
  with s(1) have s2: "status ?c2 = Responding"
    by (simp add: quiet_status)
  from ql s(1) have c: "\<not> closes l" "\<not> closes s"
    by (simp_all add: quiet_def)
  from w have r: "registered w" "\<not> conn_closed w"
    by (simp_all add: streaming_def)
  have "stream_loop act p w = stream_loop act [] ?w'"
    by (subst stream_loop.simps)
       (simp add: scr m s(2) s1 c r await_def stream_chunk_def send_text_def client_send_def
          andthen_def ret_def Let_def)
  moreover have "streaming ?w'"
    using r s2 by (simp add: streaming_def)
  ultimately show ?thesis
    by (intro exI [of _ ?w']) simp
qed

text \<open>The loop threads the unsent text through a stretch of sends that raise.\<close>

lemma stream_loop_failed_sends:
  "failed_sends steps ts \<Longrightarrow> streaming w \<Longrightarrow> script w = steps @ rest \<Longrightarrow>
     \<exists>w'. stream_loop act p w = stream_loop act (p @ concat ts) w' \<and> script w' = rest
       \<and> streaming w' \<and> delivered (trace w') = delivered (trace w)"
proof (induction steps ts arbitrary: w p rule: failed_sends.induct)
  case (1 ts)
  then show ?case by auto
next
  case (2 l ts)
  then show ?case by simp
next
  case (3 l s steps ts)
  from "3.prems"(1) obtain t ts' where ts: "ts = t # ts'" and l: "text_line l t"
    and s: "quiet s" "send_res s = OtherWebSocketException" and f: "failed_sends steps ts'"
    by (cases ts) auto
  from "3.prems"(3) have scr: "script w = l # s # (steps @ rest)"
    by simp
  from stream_loop_failed_send [OF "3.prems"(2) scr l s, of act p]
  obtain w1 where 1: "stream_loop act p w = stream_loop act (p @ t) w1"
    and 2: "script w1 = steps @ rest" and 3: "streaming w1"
    and 4: "delivered (trace w1) = delivered (trace w)"
    by blast
  from "3.IH" [OF ts f 3 2, of "p @ t"]
  obtain w' where "stream_loop act (p @ t) w1 = stream_loop act ((p @ t) @ concat ts') w'"
    and "script w' = rest" and "streaming w'"
    and "delivered (trace w') = delivered (trace w1)"
    by blast
  with 1 4 ts show ?case
    by (intro exI [of _ w']) simp
qed

lemma stream_loop_unsent_then_delivered:
  assumes "failed_sends steps ts" and "text_line l t" and "quiet s" and "send_res s = Delivered"
    and "streaming w" and "script w = steps @ l # s # rest"
  shows "\<exists>w'. stream_loop act p w = stream_loop act [] w' \<and> script w' = rest
           \<and> streaming w'
           \<and> delivered (trace w') = delivered (trace w) @ [Response (p @ concat ts @ t) act]"
proof -
  from stream_loop_failed_sends [OF assms(1) assms(5) assms(6), of act p]
  obtain w1 where 1: "stream_loop act p w = stream_loop act (p @ concat ts) w1"
    and 2: "script w1 = l # s # rest" and 3: "streaming w1"
    and 4: "delivered (trace w1) = delivered (trace w)"
    by blast
  from stream_loop_delivered_send [OF 3 2 assms(2) assms(3) assms(4), of act "p @ concat ts"]
  obtain w' where "stream_loop act (p @ concat ts) w1 = stream_loop act [] w'"
    and "script w' = rest" and "streaming w'"
    and "delivered (trace w') = delivered (trace w1) @ [Response ((p @ concat ts) @ t) act]"
    by blast
  with 1 4 show ?thesis
    by (intro exI [of _ w']) simp
qed

text \<open>
  The start of a call up to its first fragment, whose send raises after the
  \<^verbatim>\<open>responseStart\<close> frame was delivered; and the end of a call with nothing unsent.
\<close>

lemma stream_prompts_first_failed_send:
  assumes w: "registered w" "\<not> conn_closed w"
    and scr: "script w = h # l # b # s # rest"
    and h: "ok_reply h" and l: "text_line l t"
    and b: "quiet b" "send_res b = Delivered"
    and s: "quiet s" "send_res s = OtherWebSocketException"
  shows "\<exists>w'. stream_prompts pr flag_idle act w = stream_rest flag_idle act t w'
           \<and> script w' = rest \<and> streaming w'
           \<and> delivered (trace w') = delivered (trace w) @ [ResponseStart act]"
proof -
  from l obtain m where m: "line_res l = Line (Some m)" "chunk_text m = Some t" "t \<noteq> []"
    and ql: "quiet l"
    by (rule text_lineD)
  from h obtain body where hr: "http_res h = HttpResponse 200 body" and qh: "quiet h"
    by (auto simp: ok_reply_def split: http_result.splits)
  let ?c0 = "(ci w)\<lparr>status := Working\<rparr>"
  let ?c1 = "ws_receiver ?c0 (inbound h)"
  let ?c2 = "ws_receiver ?c1 (inbound l)"
  let ?c3 = "ws_receiver (?c2\<lparr>status := Responding\<rparr>) (inbound b)"
  let ?c4 = "ws_receiver ?c3 (inbound s)"
  let ?w1 = "w\<lparr>trace := trace w @ [Generate True pr Working], ci := ?c1,
               conn_closed := False, script := l # b # s # rest\<rparr>"
  let ?w' = "w\<lparr>ci := ?c4, conn_closed := False, script := rest,
               trace := trace w @ [Generate True pr Working, Chunk (Some m),
                                   Sent (ResponseStart act) Delivered,
                                   Sent (Response t act) OtherWebSocketException]\<rparr>"
  from qh have s1: "status ?c1 = Working"
    by (simp add: quiet_status)
  with ql have s2: "status ?c2 = Working"
    by (simp add: quiet_status)
  from b(1) have s3: "status ?c3 = Responding"
    by (simp add: quiet_status)
  with s(1) have s4: "status ?c4 = Responding"
    by (simp add: quiet_status)
  from qh ql b(1) s(1) have c: "\<not> closes h" "\<not> closes l" "\<not> closes b" "\<not> closes s"
    by (simp_all add: quiet_def)
  have 1: "stream_prompts pr flag_idle act w = stream_rest flag_idle act [] ?w1"
    by (simp add: stream_prompts_def scr hr c w await_def stream_from_llm_def
        set_status_def andthen_def Let_def)
  have 2: "stream_loop act [] ?w1 = stream_loop act t ?w'"
    by (subst stream_loop.simps)
       (simp add: m b(2) s(2) s2 s3 c w await_def
          stream_chunk_def send_text_def ensure_ws_send_message_def client_send_def
          set_status_def andthen_def ret_def Let_def)
  from 1 2 have "stream_prompts pr flag_idle act w = stream_rest flag_idle act t ?w'"
    by (simp add: stream_rest_def andthen_def)
  moreover have "streaming ?w'"
    using w s4 by (simp add: streaming_def)
  ultimately show ?thesis
    by (intro exI [of _ ?w']) simp
qed

lemma stream_rest_end:
  assumes w: "streaming w" and scr: "script w = e # f # rest"
    and e: "quiet e" "line_res e = EndOfBody" and f: "quiet f" "send_res f = Delivered"
  shows "\<exists>w'. stream_rest flag_idle act [] w = (Ret True, w') \<and> script w' = rest
           \<and> delivered (trace w') = delivered (trace w) @ [ResponseEnd act]"
proof -
  let ?c1 = "ws_receiver (ci w) (inbound e)"
  let ?c2 = "ws_receiver ?c1 (inbound f)"
  let ?w1 = "w\<lparr>ci := ?c1, conn_closed := False, script := f # rest\<rparr>"
  let ?w' = "w\<lparr>ci := (if flag_idle then ?c2\<lparr>status := Idle\<rparr> else ?c2),
               conn_closed := False, script := rest,
               trace := trace w @ [Sent (ResponseEnd act) Delivered]\<rparr>"
  from w e(1) have s1: "status ?c1 = Responding"
    by (simp add: quiet_status streaming_def)
  with f(1) have s2: "status ?c2 = Responding"
    by (simp add: quiet_status)
  from e(1) f(1) have c: "\<not> closes e" "\<not> closes f"
    by (simp_all add: quiet_def)
  from w have r: "registered w" "\<not> conn_closed w"
    by (simp_all add: streaming_def)
  have 1: "stream_loop act [] w = (Ret (Some []), ?w1)"
    by (subst stream_loop.simps) (simp add: scr e(2) c r await_def)
  have 2: "stream_finish flag_idle act [] ?w1 = (Ret True, ?w')"
    by (simp add: f(2) s2 c r await_def stream_finish_def
          ensure_ws_send_message_def client_send_def get_ci_def set_status_def
          andthen_def ret_def Let_def)
  from 1 2 have "stream_rest flag_idle act [] w = (Ret True, ?w')"
    by (simp add: stream_rest_def andthen_def)
  then show ?thesis
    by (intro exI [of _ ?w']) simp
qed

text \<open>
  C4, as the code has it. The loop of \<open>stream_prompts\<close> carries all the text not yet
  sent: the text carried before, then the text of each fragment whose send raised a
  \<^verbatim>\<open>WebSocketException\<close> other than \<^verbatim>\<open>ConnectionClosedError\<close>, in order. For every
  stretch of such sends (one or more fragments, with the texts \<open>ts\<close>) in a call that goes
  on: the loop continues with the unsent text \<open>p @ concat ts\<close> and nothing was
  delivered; when the send of the next fragment (text \<open>t\<close>) is delivered, the frame
  delivered is \<open>p @ concat ts @ t\<close> and the loop continues with nothing unsent. For a
  whole call whose first fragment (text \<open>t1\<close>) and the fragments after it meet sends
  that raise, until one is delivered and the reply ends: the call returns True and has
  delivered the \<^verbatim>\<open>responseStart\<close> frame, one \<^verbatim>\<open>response\<close> frame with all the texts in
  order, and the \<^verbatim>\<open>responseEnd\<close> frame.
\<close>

theorem stream_prompts_merges_unsent_text:
  assumes "failed_sends steps ts" and "text_line l t" and "quiet s" and "send_res s = Delivered"
  shows "(streaming w \<and> script w = steps @ rest \<longrightarrow>
            (\<exists>w'. stream_loop act p w = stream_loop act (p @ concat ts) w'
                 \<and> script w' = rest \<and> streaming w'
                 \<and> delivered (trace w') = delivered (trace w)))
       \<and> (streaming w \<and> script w = steps @ l # s # rest \<longrightarrow>
            (\<exists>w'. stream_loop act p w = stream_loop act [] w'
                 \<and> script w' = rest \<and> streaming w'
                 \<and> delivered (trace w')
                     = delivered (trace w) @ [Response (p @ concat ts @ t) act]))
       \<and> (registered w \<and> \<not> conn_closed w
            \<and> script w = h # l1 # b # s1 # steps @ l # s # e # f # rest
            \<and> ok_reply h \<and> text_line l1 t1 \<and> quiet b \<and> send_res b = Delivered
            \<and> quiet s1 \<and> send_res s1 = OtherWebSocketException
            \<and> quiet e \<and> line_res e = EndOfBody \<and> quiet f \<and> send_res f = Delivered \<longrightarrow>
            (\<exists>w'. stream_prompts pr flag_idle act w = (Ret True, w')
                 \<and> script w' = rest
                 \<and> delivered (trace w')
                     = delivered (trace w)
                       @ [ResponseStart act, Response (t1 @ concat ts @ t) act,
                          ResponseEnd act]))"
proof (intro conjI impI)
  assume "streaming w \<and> script w = steps @ rest"
  then show "\<exists>w'. stream_loop act p w = stream_loop act (p @ concat ts) w'
                 \<and> script w' = rest \<and> streaming w'
                 \<and> delivered (trace w') = delivered (trace w)"
    using stream_loop_failed_sends [OF assms(1), of w rest act p] by simp
next
  assume "streaming w \<and> script w = steps @ l # s # rest"
  then show "\<exists>w'. stream_loop act p w = stream_loop act [] w'
                 \<and> script w' = rest \<and> streaming w'
                 \<and> delivered (trace w')
                     = delivered (trace w) @ [Response (p @ concat ts @ t) act]"
    using stream_loop_unsent_then_delivered [OF assms, of w rest act p] by simp
next
  assume a: "registered w \<and> \<not> conn_closed w
            \<and> script w = h # l1 # b # s1 # steps @ l # s # e # f # rest
            \<and> ok_reply h \<and> text_line l1 t1 \<and> quiet b \<and> send_res b = Delivered
            \<and> quiet s1 \<and> send_res s1 = OtherWebSocketException
            \<and> quiet e \<and> line_res e = EndOfBody \<and> quiet f \<and> send_res f = Delivered"
  then have scr: "script w = h # l1 # b # s1 # (steps @ l # s # e # f # rest)"
    by simp
  from a stream_prompts_first_failed_send [OF _ _ scr, of t1 pr flag_idle act]
  obtain w1 where 1: "stream_prompts pr flag_idle act w = stream_rest flag_idle act t1 w1"
    and 2: "script w1 = steps @ l # s # (e # f # rest)" and 3: "streaming w1"
    and 4: "delivered (trace w1) = delivered (trace w) @ [ResponseStart act]"
    by auto
  from stream_loop_unsent_then_delivered [OF assms 3 2, of act t1]
  obtain w2 where 5: "stream_loop act t1 w1 = stream_loop act [] w2"
    and 6: "script w2 = e # f # rest" and 7: "streaming w2"
    and 8: "delivered (trace w2) = delivered (trace w1) @ [Response (t1 @ concat ts @ t) act]"
    by blast
  from 5 have 9: "stream_rest flag_idle act t1 w1 = stream_rest flag_idle act [] w2"
    by (simp add: stream_rest_def andthen_def)
  from a stream_rest_end [OF 7 6, of flag_idle act]
  obtain w' where "stream_rest flag_idle act [] w2 = (Ret True, w')" and "script w' = rest"
    and "delivered (trace w') = delivered (trace w2) @ [ResponseEnd act]"
    by auto
  with 1 9 4 8 show "\<exists>w'. stream_prompts pr flag_idle act w = (Ret True, w')
                 \<and> script w' = rest
                 \<and> delivered (trace w')
                     = delivered (trace w)
                       @ [ResponseStart act, Response (t1 @ concat ts @ t) act,
                          ResponseEnd act]"
    by (intro exI [of _ w']) simp
qed

text \<open>
  A call whose reply has the fragments \<^verbatim>\<open>a\<close> and \<^verbatim>\<open>b\<close>: the send of the first raises,
  the send of the second is delivered.
\<close>

definition text_step :: "string \<Rightarrow> env_step" where
  "text_step t = quiet_step\<lparr>line_res := Line (Some (MessageStr t))\<rparr>"

definition pair_script :: "env_step list" where
  "pair_script =
     [quiet_step, text_step ''a'', quiet_step, failing_send,
      text_step ''b'', quiet_step, quiet_step, quiet_step]"

theorem stream_prompts_merges_unsent_text_witness:
  "failed_sends [] [] \<and> text_line (text_step ''b'') ''b'' \<and> quiet quiet_step
   \<and> send_res quiet_step = Delivered \<and> send_res failing_send = OtherWebSocketException
   \<and> fst (stream_prompts prompt_error_message_en True None (idle_world pair_script)) = Ret True
   \<and> delivered (trace (snd (stream_prompts prompt_error_message_en True None
                               (idle_world pair_script))))
       = [ResponseStart None, Response ''ab'' None, ResponseEnd None]"
proof -
  have q: "quiet quiet_step" "quiet failing_send"
    by (simp_all add: quiet_def quiet_step_def failing_send_def)
  have a: "text_line (text_step ''a'') ''a''" and b: "text_line (text_step ''b'') ''b''"
    by (simp_all add: text_line_def text_step_def quiet_def quiet_step_def chunk_text_def)
  have f: "failed_sends [] []"
    by simp
  have d: "send_res quiet_step = Delivered" "send_res failing_send = OtherWebSocketException"
    "line_res quiet_step = EndOfBody" "ok_reply quiet_step"
    by (simp_all add: quiet_step_def failing_send_def ok_reply_def quiet_def)
  have w: "registered (idle_world pair_script) \<and> \<not> conn_closed (idle_world pair_script)
      \<and> script (idle_world pair_script)
          = quiet_step # text_step ''a'' # quiet_step # failing_send # []
            @ text_step ''b'' # quiet_step # quiet_step # quiet_step # []"
    by (simp add: idle_world_def pair_script_def)
  from stream_prompts_merges_unsent_text [OF f b q(1) d(1),
      where w = "idle_world pair_script" and h = quiet_step and ?l1.0 = "text_step ''a''"
        and ?t1.0 = "''a''" and b = quiet_step and ?s1.0 = failing_send and e = quiet_step
        and f = quiet_step and rest = "[]" and pr = prompt_error_message_en
        and flag_idle = True and act = None]
    w a q d
  obtain w' where
    "stream_prompts prompt_error_message_en True None (idle_world pair_script) = (Ret True, w')"
    and "delivered (trace w')
       = delivered (trace (idle_world pair_script))
         @ [ResponseStart None, Response (''a'' @ concat [] @ ''b'') None, ResponseEnd None]"
    by auto
  then have "fst (stream_prompts prompt_error_message_en True None (idle_world pair_script))
        = Ret True
      \<and> delivered (trace (snd (stream_prompts prompt_error_message_en True None
                                  (idle_world pair_script))))
          = [ResponseStart None, Response ''ab'' None, ResponseEnd None]"
    by (simp add: idle_world_def)
  with f b q(1) d(1) d(2) show ?thesis
    by (intro conjI) simp_all
qed

text \<open>
  C4 as stated fails in its last part. The reply has the fragments \<^verbatim>\<open>a\<close>, \<^verbatim>\<open>b\<close> and
  \<^verbatim>\<open>c\<close>; the sends of the first two raise and the third is delivered. The second send
  already carries both fragments, and after it the unsent text is \<^verbatim>\<open>ab\<close>, two fragments'
  worth: the frame delivered for the pair \<^verbatim>\<open>b\<close>, \<^verbatim>\<open>c\<close> is \<^verbatim>\<open>abc\<close>, not \<^verbatim>\<open>bc\<close>.
\<close>

theorem stream_prompts_carry_counterexample:
  "stream_prompts prompt_error_message_en True None
     (idle_world [quiet_step, text_step ''a'', quiet_step, failing_send,
                  text_step ''b'', failing_send, text_step ''c'', quiet_step,
                  quiet_step, quiet_step])
     = (Ret True,
        (idle_world [])\<lparr>trace :=
           [Generate True prompt_error_message_en Working,
            Chunk (Some (MessageStr ''a'')),
            Sent (ResponseStart None) Delivered,
            Sent (Response ''a'' None) OtherWebSocketException,
            Chunk (Some (MessageStr ''b'')),
            Sent (Response ''ab'' None) OtherWebSocketException,
            Chunk (Some (MessageStr ''c'')),
            Sent (Response ''abc'' None) Delivered,
            Sent (ResponseEnd None) Delivered]\<rparr>)
   \<and> ''abc'' \<noteq> ''bc''"
  by (simp add: run_defs idle_world_def text_step_def failing_send_def quiet_step_def)

text \<open>
  The status after the Receiver has handled a sequence of messages depends on how many
  of them carry an action: none leaves it as it is; the first action sets it to
  Interrupt when it was Working or Responding and to NewTask otherwise; a further action
  finds it neither Working nor Responding and sets it to NewTask.
\<close>

definition count_actions :: "inbound list \<Rightarrow> nat" where
  "count_actions msgs = length (filter (\<lambda>m. \<not> no_action m) msgs)"

lemma ws_receiver_Cons:
  "ws_receiver c (m # msgs) = ws_receiver (ws_receiver_message c m) msgs"
  by (simp add: ws_receiver_def)

lemma ws_receiver_message_action:
  "\<not> no_action m \<Longrightarrow>
     status (ws_receiver_message c m)
       = (if status c = Working \<or> status c = Responding then Interrupt else NewTask)"
  by (auto simp: no_action_def ws_receiver_message_def Let_def
      split: inbound.splits option.splits)

lemma ws_receiver_status:
  "status (ws_receiver c msgs)
     = (if count_actions msgs = 0 then status c
        else if count_actions msgs = 1 \<and> (status c = Working \<or> status c = Responding)
        then Interrupt else NewTask)"
proof (induction msgs arbitrary: c)
  case Nil
  then show ?case by (simp add: ws_receiver_def count_actions_def)
next
  case (Cons m msgs)
  show ?case
  proof (cases "no_action m")
    case True
    then have "status (ws_receiver_message c m) = status c"
      by (rule ws_receiver_message_no_action)
    moreover from True have "count_actions (m # msgs) = count_actions msgs"
      by (simp add: count_actions_def)
    ultimately show ?thesis
      by (simp add: ws_receiver_Cons Cons.IH)
  next
    case False
    then have "status (ws_receiver_message c m)
        = (if status c = Working \<or> status c = Responding then Interrupt else NewTask)"
      by (rule ws_receiver_message_action)
    moreover from False have "count_actions (m # msgs) = Suc (count_actions msgs)"
      by (simp add: count_actions_def)
    ultimately show ?thesis
      by (simp add: ws_receiver_Cons Cons.IH)
  qed
qed

text \<open>The call in flight that reads a fragment while the status is Interrupt.\<close>

lemma stream_loop_interrupted:
  assumes "script w = s # rest" and "line_res s = Line chunk_data"
    and "status (ws_receiver (ci w) (inbound s)) = Interrupt"
  shows "stream_loop act prev_msg w
           = (Ret None,
              w\<lparr>ci := ws_receiver (ci w) (inbound s),
                conn_closed := (conn_closed w \<or> closes s),
                script := rest,
                trace := trace w @ [Chunk chunk_data]\<rparr>)"
  using assms
  by (simp add: stream_loop.simps [of act prev_msg w] await_def stream_chunk_def)

lemma stream_rest_interrupted:
  assumes "script w = s # rest" and "line_res s = Line chunk_data"
    and "status (ws_receiver (ci w) (inbound s)) = Interrupt"
  shows "stream_rest flag_idle act prev_msg w
           = (Ret False,
              w\<lparr>ci := ws_receiver (ci w) (inbound s),
                conn_closed := (conn_closed w \<or> closes s),
                script := rest,
                trace := trace w @ [Chunk chunk_data]\<rparr>)"
  by (simp add: stream_rest_def andthen_def ret_def stream_loop_interrupted [OF assms])

text \<open>
  A call from its start: the first fragment is read, an action arrives while the
  \<^verbatim>\<open>responseStart\<close> frame is sent, the text of the fragment is sent all the same, and the
  call ends when the next fragment is read.
\<close>

lemma stream_prompts_interrupted_during_start:
  assumes w: "registered w" "\<not> conn_closed w"
    and scr: "script w = h # l1 # b # s1 # l2 # rest"
    and h: "ok_reply h" and l1: "text_line l1 t1"
    and b: "\<not> closes b" "count_actions (inbound b) = 1" "send_res b = Delivered"
    and s1: "quiet s1" "send_res s1 = Delivered"
    and l2: "line_res l2 = Line chunk_data" "count_actions (inbound l2) = 0"
  shows "\<exists>w'. stream_prompts pr flag_idle act w = (Ret False, w') \<and> script w' = rest
           \<and> status (ci w') = Interrupt
           \<and> delivered (trace w')
               = delivered (trace w) @ [ResponseStart act, Response t1 act]"
proof -
  from l1 obtain m where m: "line_res l1 = Line (Some m)" "chunk_text m = Some t1" "t1 \<noteq> []"
    and ql: "quiet l1"
    by (rule text_lineD)
  from h obtain body where hr: "http_res h = HttpResponse 200 body" and qh: "quiet h"
    by (auto simp: ok_reply_def split: http_result.splits)
  let ?c0 = "(ci w)\<lparr>status := Working\<rparr>"
  let ?c1 = "ws_receiver ?c0 (inbound h)"
  let ?c2 = "ws_receiver ?c1 (inbound l1)"
  let ?c3 = "ws_receiver (?c2\<lparr>status := Responding\<rparr>) (inbound b)"
  let ?c4 = "ws_receiver ?c3 (inbound s1)"
  let ?c5 = "ws_receiver ?c4 (inbound l2)"
  let ?w1 = "w\<lparr>trace := trace w @ [Generate True pr Working], ci := ?c1,
               conn_closed := False, script := l1 # b # s1 # l2 # rest\<rparr>"
  let ?w2 = "w\<lparr>ci := ?c4, conn_closed := False, script := l2 # rest,
               trace := trace w @ [Generate True pr Working, Chunk (Some m),
                                   Sent (ResponseStart act) Delivered,
                                   Sent (Response t1 act) Delivered]\<rparr>"
  let ?w' = "?w2\<lparr>ci := ws_receiver (ci ?w2) (inbound l2),
                 conn_closed := (conn_closed ?w2 \<or> closes l2),
                 script := rest,
                 trace := trace ?w2 @ [Chunk chunk_data]\<rparr>"
  from qh have s1': "status ?c1 = Working"
    by (simp add: quiet_status)
  with ql have s2: "status ?c2 = Working"
    by (simp add: quiet_status)
  from b(2) have s3: "status ?c3 = Interrupt"
    by (simp add: ws_receiver_status)
  with s1(1) have s4: "status ?c4 = Interrupt"
    by (simp add: quiet_status)
  with l2(2) have s5: "status ?c5 = Interrupt"
    by (simp add: ws_receiver_status)
  from qh ql s1(1) have c: "\<not> closes h" "\<not> closes l1" "\<not> closes s1"
    by (simp_all add: quiet_def)
  have 1: "stream_prompts pr flag_idle act w = stream_rest flag_idle act [] ?w1"
    by (simp add: stream_prompts_def scr hr c w await_def stream_from_llm_def
        set_status_def andthen_def Let_def)
  have 2: "stream_loop act [] ?w1 = stream_loop act [] ?w2"
    by (subst stream_loop.simps)
       (simp add: m b(1) b(3) s1(2) s2 s3 c w await_def
          stream_chunk_def send_text_def ensure_ws_send_message_def client_send_def
          set_status_def andthen_def ret_def Let_def)
  have 3: "stream_rest flag_idle act [] ?w2 = (Ret False, ?w')"
    by (rule stream_rest_interrupted) (simp_all add: l2(1) s5)
  from 2 have "stream_rest flag_idle act [] ?w1 = stream_rest flag_idle act [] ?w2"
    by (simp add: stream_rest_def andthen_def)
  with 1 3 have "stream_prompts pr flag_idle act w = (Ret False, ?w')"
    by simp
  moreover have "status (ci ?w') = Interrupt"
    using s5 by simp
  ultimately show ?thesis
    by (intro exI [of _ ?w']) simp
qed

text \<open>
  C2, as the code has it. For every sequence of inbound messages that the Receiver
  handles, the status afterwards is Interrupt exactly when the status was Working or
  Responding and one message carried an action, or it was Interrupt and none did.
  \<open>stream_prompts\<close> tests the status when it has read a further fragment, and only then:
  a call in flight (in its loop, or \<open>stream_rest\<close>: waiting for the next line of the
  reply, with any text not yet sent) that reads a fragment, after which wait the status
  is Interrupt, returns False and sends nothing more: no \<^verbatim>\<open>response\<close> and no
  \<^verbatim>\<open>responseEnd\<close> frame. This holds wherever the action stands among the messages of
  that wait, and when the action arrived in an earlier wait. The frames of the fragment
  in hand when the action arrives are still sent: in a call from its start, when the
  action arrives while the \<^verbatim>\<open>responseStart\<close> frame is sent, the text of the first
  fragment is delivered, and the call returns False when it has read the next fragment.
\<close>

theorem stream_prompts_aborts_at_next_chunk:
  "status (ws_receiver c msgs)
     = (if count_actions msgs = 0 then status c
        else if count_actions msgs = 1 \<and> (status c = Working \<or> status c = Responding)
        then Interrupt else NewTask)
   \<and> (script w = s # rest \<and> line_res s = Line chunk_data
        \<and> status (ws_receiver (ci w) (inbound s)) = Interrupt \<longrightarrow>
        stream_loop act prev_msg w
          = (Ret None,
             w\<lparr>ci := ws_receiver (ci w) (inbound s),
               conn_closed := (conn_closed w \<or> closes s),
               script := rest,
               trace := trace w @ [Chunk chunk_data]\<rparr>)
        \<and> stream_rest flag_idle act prev_msg w
          = (Ret False,
             w\<lparr>ci := ws_receiver (ci w) (inbound s),
               conn_closed := (conn_closed w \<or> closes s),
               script := rest,
               trace := trace w @ [Chunk chunk_data]\<rparr>))
   \<and> (script w = s # rest \<and> line_res s = Line chunk_data
        \<and> ((status (ci w) = Working \<or> status (ci w) = Responding)
              \<and> count_actions (inbound s) = 1
            \<or> status (ci w) = Interrupt \<and> count_actions (inbound s) = 0) \<longrightarrow>
        fst (stream_rest flag_idle act prev_msg w) = Ret False
        \<and> trace (snd (stream_rest flag_idle act prev_msg w)) = trace w @ [Chunk chunk_data]
        \<and> status (ci (snd (stream_rest flag_idle act prev_msg w))) = Interrupt)
   \<and> (registered w \<and> \<not> conn_closed w \<and> script w = h # l1 # b # s1 # l2 # rest
        \<and> ok_reply h \<and> text_line l1 t1
        \<and> \<not> closes b \<and> count_actions (inbound b) = 1 \<and> send_res b = Delivered
        \<and> quiet s1 \<and> send_res s1 = Delivered
        \<and> line_res l2 = Line chunk_data \<and> count_actions (inbound l2) = 0 \<longrightarrow>
        (\<exists>w'. stream_prompts pr flag_idle act w = (Ret False, w') \<and> script w' = rest
             \<and> status (ci w') = Interrupt
             \<and> delivered (trace w')
                 = delivered (trace w) @ [ResponseStart act, Response t1 act]))"
proof (intro conjI impI)
  show "status (ws_receiver c msgs)
     = (if count_actions msgs = 0 then status c
        else if count_actions msgs = 1 \<and> (status c = Working \<or> status c = Responding)
        then Interrupt else NewTask)"
    by (rule ws_receiver_status)
next
  assume "script w = s # rest \<and> line_res s = Line chunk_data
        \<and> status (ws_receiver (ci w) (inbound s)) = Interrupt"
  then show "stream_loop act prev_msg w
          = (Ret None,
             w\<lparr>ci := ws_receiver (ci w) (inbound s),
               conn_closed := (conn_closed w \<or> closes s),
               script := rest,
               trace := trace w @ [Chunk chunk_data]\<rparr>)"
    by (simp add: stream_loop_interrupted)
next
  assume "script w = s # rest \<and> line_res s = Line chunk_data
        \<and> status (ws_receiver (ci w) (inbound s)) = Interrupt"
  then show "stream_rest flag_idle act prev_msg w
          = (Ret False,
             w\<lparr>ci := ws_receiver (ci w) (inbound s),
               conn_closed := (conn_closed w \<or> closes s),
               script := rest,
               trace := trace w @ [Chunk chunk_data]\<rparr>)"
    by (simp add: stream_rest_interrupted)
next
  assume a: "script w = s # rest \<and> line_res s = Line chunk_data
        \<and> ((status (ci w) = Working \<or> status (ci w) = Responding)
              \<and> count_actions (inbound s) = 1
            \<or> status (ci w) = Interrupt \<and> count_actions (inbound s) = 0)"
  then have i: "status (ws_receiver (ci w) (inbound s)) = Interrupt"
    by (auto simp: ws_receiver_status)
  from a have 1: "script w = s # rest" and 2: "line_res s = Line chunk_data"
    by simp_all
  note r = stream_rest_interrupted [OF 1 2 i, of flag_idle act prev_msg]
  show "fst (stream_rest flag_idle act prev_msg w) = Ret False"
    by (simp add: r)
  show "trace (snd (stream_rest flag_idle act prev_msg w)) = trace w @ [Chunk chunk_data]"
    by (simp add: r)
  show "status (ci (snd (stream_rest flag_idle act prev_msg w))) = Interrupt"
    by (simp add: r i)
next
  assume a: "registered w \<and> \<not> conn_closed w \<and> script w = h # l1 # b # s1 # l2 # rest
        \<and> ok_reply h \<and> text_line l1 t1
        \<and> \<not> closes b \<and> count_actions (inbound b) = 1 \<and> send_res b = Delivered
        \<and> quiet s1 \<and> send_res s1 = Delivered
        \<and> line_res l2 = Line chunk_data \<and> count_actions (inbound l2) = 0"
  then show "\<exists>w'. stream_prompts pr flag_idle act w = (Ret False, w') \<and> script w' = rest
             \<and> status (ci w') = Interrupt
             \<and> delivered (trace w')
                 = delivered (trace w) @ [ResponseStart act, Response t1 act]"
    using stream_prompts_interrupted_during_start
      [of w h l1 b s1 l2 rest t1 chunk_data pr flag_idle act]
    by simp
qed

definition chat_frame :: inbound where
  "chat_frame = Frame \<lparr>f_lang = None, f_fileName = None, f_images = None,
                       f_action = Some ''Chat'', f_details = None\<rparr>"

definition lang_frame :: inbound where
  "lang_frame = Frame \<lparr>f_lang = Some ''zh'', f_fileName = None, f_images = None,
                       f_action = None, f_details = None\<rparr>"

text \<open>
  Two sessions. In the first the call is in flight with unsent text, and an action
  arrives, followed by a message without one, while the Worker waits for the next
  fragment. In the second the call starts, and the action arrives while the
  \<^verbatim>\<open>responseStart\<close> frame is sent.
\<close>

definition interrupt_step :: env_step where
  "interrupt_step =
     quiet_step\<lparr>inbound := [chat_frame, lang_frame],
                line_res := Line (Some (MessageStr ''lo''))\<rparr>"

definition early_action_script :: "env_step list" where
  "early_action_script =
     [quiet_step, text_step ''Hi'', quiet_step\<lparr>inbound := [chat_frame]\<rparr>, quiet_step,
      text_step ''there'', quiet_step, quiet_step]"

theorem stream_prompts_aborts_at_next_chunk_witness:
  "count_actions [chat_frame, lang_frame] = 1
   \<and> fst (stream_rest True None ''Hel''
            (streaming_world [interrupt_step, quiet_step, quiet_step])) = Ret False
   \<and> trace (snd (stream_rest True None ''Hel''
                   (streaming_world [interrupt_step, quiet_step, quiet_step])))
       = [Chunk (Some (MessageStr ''lo''))]
   \<and> status (ci (snd (stream_rest True None ''Hel''
                        (streaming_world [interrupt_step, quiet_step, quiet_step]))))
       = Interrupt
   \<and> fst (stream_prompts prompt_error_message_en True None (idle_world early_action_script))
       = Ret False
   \<and> delivered (trace (snd (stream_prompts prompt_error_message_en True None
                               (idle_world early_action_script))))
       = [ResponseStart None, Response ''Hi'' None]
   \<and> script (snd (stream_prompts prompt_error_message_en True None
                     (idle_world early_action_script)))
       = [quiet_step, quiet_step]"
proof -
  let ?w = "streaming_world [interrupt_step, quiet_step, quiet_step]"
  have n: "count_actions [chat_frame, lang_frame] = 1" "count_actions [chat_frame] = 1"
    "count_actions [] = 0"
    by (simp_all add: count_actions_def no_action_def chat_frame_def lang_frame_def)
  have 1: "script ?w = interrupt_step # [quiet_step, quiet_step]
      \<and> line_res interrupt_step = Line (Some (MessageStr ''lo''))
      \<and> ((status (ci ?w) = Working \<or> status (ci ?w) = Responding)
            \<and> count_actions (inbound interrupt_step) = 1
          \<or> status (ci ?w) = Interrupt \<and> count_actions (inbound interrupt_step) = 0)"
    by (simp add: streaming_world_def interrupt_step_def n)
  have 2: "registered (idle_world early_action_script)
      \<and> \<not> conn_closed (idle_world early_action_script)
      \<and> script (idle_world early_action_script)
          = quiet_step # text_step ''Hi'' # quiet_step\<lparr>inbound := [chat_frame]\<rparr> # quiet_step
            # text_step ''there'' # [quiet_step, quiet_step]
      \<and> ok_reply quiet_step \<and> text_line (text_step ''Hi'') ''Hi''
      \<and> \<not> closes (quiet_step\<lparr>inbound := [chat_frame]\<rparr>)
      \<and> count_actions (inbound (quiet_step\<lparr>inbound := [chat_frame]\<rparr>)) = 1
      \<and> send_res (quiet_step\<lparr>inbound := [chat_frame]\<rparr>) = Delivered
      \<and> quiet quiet_step \<and> send_res quiet_step = Delivered
      \<and> line_res (text_step ''there'') = Line (Some (MessageStr ''there''))
      \<and> count_actions (inbound (text_step ''there'')) = 0"
    by (simp add: idle_world_def early_action_script_def n ok_reply_def text_line_def
        quiet_def text_step_def quiet_step_def chunk_text_def)
  note t = stream_prompts_aborts_at_next_chunk
    [where w = ?w and s = interrupt_step and rest = "[quiet_step, quiet_step]"
      and chunk_data = "Some (MessageStr ''lo'')" and flag_idle = True and act = None
      and prev_msg = "''Hel''"]
  from t 1 have a: "fst (stream_rest True None ''Hel'' ?w) = Ret False
      \<and> trace (snd (stream_rest True None ''Hel'' ?w)) = trace ?w @ [Chunk (Some (MessageStr ''lo''))]
      \<and> status (ci (snd (stream_rest True None ''Hel'' ?w))) = Interrupt"
    by blast
  from stream_prompts_aborts_at_next_chunk
    [where w = "idle_world early_action_script" and h = quiet_step
      and ?l1.0 = "text_step ''Hi''" and ?t1.0 = "''Hi''"
      and b = "quiet_step\<lparr>inbound := [chat_frame]\<rparr>" and ?s1.0 = quiet_step
      and ?l2.0 = "text_step ''there''" and rest = "[quiet_step, quiet_step]"
      and chunk_data = "Some (MessageStr ''there'')"
      and pr = prompt_error_message_en and flag_idle = True and act = None] 2
  obtain w' where
    "stream_prompts prompt_error_message_en True None (idle_world early_action_script)
       = (Ret False, w')"
    and "script w' = [quiet_step, quiet_step]"
    and "delivered (trace w')
       = delivered (trace (idle_world early_action_script))
         @ [ResponseStart None, Response ''Hi'' None]"
    by blast
  then have b: "fst (stream_prompts prompt_error_message_en True None
                       (idle_world early_action_script)) = Ret False
      \<and> delivered (trace (snd (stream_prompts prompt_error_message_en True None
                                  (idle_world early_action_script))))
          = [ResponseStart None, Response ''Hi'' None]
      \<and> script (snd (stream_prompts prompt_error_message_en True None
                        (idle_world early_action_script)))
          = [quiet_step, quiet_step]"
    by (simp add: idle_world_def)
  from a have a': "fst (stream_rest True None ''Hel'' ?w) = Ret False
      \<and> trace (snd (stream_rest True None ''Hel'' ?w)) = [Chunk (Some (MessageStr ''lo''))]
      \<and> status (ci (snd (stream_rest True None ''Hel'' ?w))) = Interrupt"
    by (simp add: streaming_world_def)
  from n(1) a' b show ?thesis
    by (intro conjI) simp_all
qed

text \<open>
  C2 as stated fails when no further chunk is read: here the action arrives while the
  status is Responding and the Worker waits for the line after the last chunk, the body
  ends, and the call sends the \<^verbatim>\<open>responseEnd\<close> frame and returns True, the status left
  at Interrupt.
\<close>

definition late_action_script :: "env_step list" where
  "late_action_script =
     [quiet_step,
      quiet_step\<lparr>line_res := Line (Some (MessageStr ''Hi''))\<rparr>,
      quiet_step, quiet_step,
      quiet_step\<lparr>inbound := [chat_frame]\<rparr>,
      quiet_step]"

theorem stream_prompts_late_action_counterexample:
  "fst (stream_prompts prompt_error_message_en True None (idle_world late_action_script))
     = Ret True
   \<and> trace (snd (stream_prompts prompt_error_message_en True None
                   (idle_world late_action_script)))
       = [Generate True prompt_error_message_en Working,
          Chunk (Some (MessageStr ''Hi'')),
          Sent (ResponseStart None) Delivered,
          Sent (Response ''Hi'' None) Delivered,
          Sent (ResponseEnd None) Delivered]
   \<and> status (ci (snd (stream_prompts prompt_error_message_en True None
                        (idle_world late_action_script)))) = Interrupt
   \<and> action (ci (snd (stream_prompts prompt_error_message_en True None
                        (idle_world late_action_script)))) = Some ''Chat''"
  by (simp add: run_defs idle_world_def late_action_script_def quiet_step_def chat_frame_def)

section \<open>Properties of the Worker loop\<close>

text \<open>A server without templates, whose JSON parser rejects every text.\<close>

definition plain_server :: server where
  "plain_server = \<lparr>prompts = (\<lambda>l. None), json_loads = (\<lambda>t. None),
                    json_dumps = (\<lambda>v. []), py_str = (\<lambda>v. [])\<rparr>"

lemma worker_turn_dropped:
  assumes "action (ci w) = Some data" and "data \<noteq> []"
    and "data \<noteq> ''Welcome''" and "data \<noteq> ''ImageOpened''" and "data \<noteq> ''AutoImageDesc''"
    and "data \<noteq> ''Chat'' \<or> chatDetails (ci w) = None"
  shows "worker_turn srv w = (Ret (), w\<lparr>ci := (ci w)\<lparr>action := None\<rparr>\<rparr>)"
proof -
  have c: "\<not> (data = ''Chat'' \<and> chatDetails (ci (w\<lparr>ci := (ci w)\<lparr>action := None\<rparr>\<rparr>)) \<noteq> None)"
    using assms(6) by auto
  show ?thesis
    unfolding worker_turn_def Let_def
    by (simp only: assms(1-5) c option.case if_False)
qed

lemma worker_turn_chat:
  assumes "action (ci w) = Some ''Chat''" and "chatDetails (ci w) = Some cd"
  shows "worker_turn srv w =
           (if page cd = ''blank'' then chat_in_blank_page srv (w\<lparr>ci := (ci w)\<lparr>action := None\<rparr>\<rparr>)
            else if page cd = ''editor''
            then chat_in_editor srv (w\<lparr>ci := (ci w)\<lparr>action := None\<rparr>\<rparr>)
            else (Ret (), w\<lparr>ci := (ci w)\<lparr>action := None\<rparr>\<rparr>))"
  using assms by (simp add: worker_turn_def Let_def)

text \<open>
  C10, as the code has it. A turn of the Worker loop that finds a pending action that is
  not the empty string clears it and gives the handler the client data without it. When
  the action is none of \<^verbatim>\<open>Welcome\<close>, \<^verbatim>\<open>ImageOpened\<close>, \<^verbatim>\<open>AutoImageDesc\<close>, and is not
  \<^verbatim>\<open>Chat\<close> with chat details, the turn does nothing else: nothing is sent (the trace is
  the same) and the status is left as it was, so a status NewTask stays NewTask.
\<close>

theorem worker_turn_clears_and_drops:
  assumes "action (ci w) = Some data" and "data \<noteq> []"
  shows "(data = ''Welcome'' \<longrightarrow>
            worker_turn srv w = create_welcome_message srv (w\<lparr>ci := (ci w)\<lparr>action := None\<rparr>\<rparr>))
       \<and> (data = ''ImageOpened'' \<longrightarrow>
            worker_turn srv w
              = create_image_opened_message srv (w\<lparr>ci := (ci w)\<lparr>action := None\<rparr>\<rparr>))
       \<and> (data = ''AutoImageDesc'' \<longrightarrow>
            worker_turn srv w
              = create_auto_image_desc_message srv (w\<lparr>ci := (ci w)\<lparr>action := None\<rparr>\<rparr>))
       \<and> (data = ''Chat'' \<and> map_option page (chatDetails (ci w)) = Some ''blank'' \<longrightarrow>
            worker_turn srv w = chat_in_blank_page srv (w\<lparr>ci := (ci w)\<lparr>action := None\<rparr>\<rparr>))
       \<and> (data = ''Chat'' \<and> map_option page (chatDetails (ci w)) = Some ''editor'' \<longrightarrow>
            worker_turn srv w = chat_in_editor srv (w\<lparr>ci := (ci w)\<lparr>action := None\<rparr>\<rparr>))
       \<and> (data \<noteq> ''Welcome'' \<and> data \<noteq> ''ImageOpened'' \<and> data \<noteq> ''AutoImageDesc''
            \<and> (data \<noteq> ''Chat'' \<or> chatDetails (ci w) = None) \<longrightarrow>
              worker_turn srv w = (Ret (), w\<lparr>ci := (ci w)\<lparr>action := None\<rparr>\<rparr>)
              \<and> trace (snd (worker_turn srv w)) = trace w
              \<and> status (ci (snd (worker_turn srv w))) = status (ci w)
              \<and> action (ci (snd (worker_turn srv w))) = None)"
proof -
  let ?w = "w\<lparr>ci := (ci w)\<lparr>action := None\<rparr>\<rparr>"
  have 1: "data = ''Welcome'' \<longrightarrow> worker_turn srv w = create_welcome_message srv ?w"
    using assms(1) by (simp add: worker_turn_def Let_def)
  have 2: "data = ''ImageOpened'' \<longrightarrow> worker_turn srv w = create_image_opened_message srv ?w"
    using assms(1) by (simp add: worker_turn_def Let_def)
  have 3: "data = ''AutoImageDesc'' \<longrightarrow>
             worker_turn srv w = create_auto_image_desc_message srv ?w"
    using assms(1) by (simp add: worker_turn_def Let_def)
  have 4: "data = ''Chat'' \<and> map_option page (chatDetails (ci w)) = Some ''blank'' \<longrightarrow>
             worker_turn srv w = chat_in_blank_page srv ?w"
  proof
    assume a: "data = ''Chat'' \<and> map_option page (chatDetails (ci w)) = Some ''blank''"
    then obtain cd where "chatDetails (ci w) = Some cd" "page cd = ''blank''"
      by (cases "chatDetails (ci w)") simp_all
    with assms(1) a show "worker_turn srv w = chat_in_blank_page srv ?w"
      by (simp add: worker_turn_chat)
  qed
  have 5: "data = ''Chat'' \<and> map_option page (chatDetails (ci w)) = Some ''editor'' \<longrightarrow>
             worker_turn srv w = chat_in_editor srv ?w"
  proof
    assume a: "data = ''Chat'' \<and> map_option page (chatDetails (ci w)) = Some ''editor''"
    then obtain cd where "chatDetails (ci w) = Some cd" "page cd = ''editor''"
      by (cases "chatDetails (ci w)") simp_all
    with assms(1) a show "worker_turn srv w = chat_in_editor srv ?w"
      by (simp add: worker_turn_chat)
  qed
  have 6: "data \<noteq> ''Welcome'' \<and> data \<noteq> ''ImageOpened'' \<and> data \<noteq> ''AutoImageDesc''
            \<and> (data \<noteq> ''Chat'' \<or> chatDetails (ci w) = None) \<longrightarrow>
              worker_turn srv w = (Ret (), ?w)
              \<and> trace (snd (worker_turn srv w)) = trace w
              \<and> status (ci (snd (worker_turn srv w))) = status (ci w)
              \<and> action (ci (snd (worker_turn srv w))) = None"
  proof
    assume "data \<noteq> ''Welcome'' \<and> data \<noteq> ''ImageOpened'' \<and> data \<noteq> ''AutoImageDesc''
            \<and> (data \<noteq> ''Chat'' \<or> chatDetails (ci w) = None)"
    then have "worker_turn srv w = (Ret (), ?w)"
      using worker_turn_dropped [OF assms, of srv] by (elim conjE)
    then show "worker_turn srv w = (Ret (), ?w)
              \<and> trace (snd (worker_turn srv w)) = trace w
              \<and> status (ci (snd (worker_turn srv w))) = status (ci w)
              \<and> action (ci (snd (worker_turn srv w))) = None"
      by simp
  qed
  from 1 2 3 4 5 6 show ?thesis
    by (intro conjI)
qed

definition new_task_world :: "string \<Rightarrow> env_step list \<Rightarrow> world" where
  "new_task_world a steps =
     \<lparr>ci = \<lparr>client_id = 1, lang = ''en'', action = Some a, status = NewTask,
            chatDetails = None, fileName = None, client_images = None\<rparr>,
      conn_closed = False, registered = True, trace = [], script = steps\<rparr>"

theorem worker_turn_clears_and_drops_witness:
  "worker_turn plain_server (new_task_world ''Chat'' [])
     = (Ret (), (new_task_world ''Chat'' [])\<lparr>ci := (ci (new_task_world ''Chat'' []))\<lparr>action := None\<rparr>\<rparr>)
   \<and> trace (snd (worker_turn plain_server (new_task_world ''Chat'' []))) = []
   \<and> status (ci (snd (worker_turn plain_server (new_task_world ''Chat'' [])))) = NewTask
   \<and> action (ci (snd (worker_turn plain_server (new_task_world ''Chat'' [])))) = None
   \<and> worker_turn plain_server (new_task_world ''Undo'' [])
     = (Ret (), (new_task_world ''Undo'' [])\<lparr>ci := (ci (new_task_world ''Undo'' []))\<lparr>action := None\<rparr>\<rparr>)"
proof -
  have a: "action (ci (new_task_world ''Chat'' [])) = Some ''Chat''" "''Chat'' \<noteq> []"
    and b: "action (ci (new_task_world ''Undo'' [])) = Some ''Undo''" "''Undo'' \<noteq> []"
    by (simp_all add: new_task_world_def)
  from worker_turn_clears_and_drops [OF a, of plain_server]
    worker_turn_clears_and_drops [OF b, of plain_server]
  show ?thesis
    by (simp add: new_task_world_def)
qed

text \<open>
  C10 as stated fails for a pending action that is not null but false: the empty string
  (an inbound frame may carry it) is not cleared, and stays pending.
\<close>

theorem worker_turn_empty_action_counterexample:
  "action (ws_receiver_message (ci (new_task_world ''Chat'' []))
             (Frame \<lparr>f_lang = None, f_fileName = None, f_images = None,
                     f_action = Some [], f_details = None\<rparr>)) = Some []
   \<and> action (ci (snd (worker_turn plain_server
        ((new_task_world ''Chat'' [])
           \<lparr>ci := ws_receiver_message (ci (new_task_world ''Chat'' []))
                    (Frame \<lparr>f_lang = None, f_fileName = None, f_images = None,
                            f_action = Some [], f_details = None\<rparr>)\<rparr>)))) = Some []"
  by (simp add: worker_turn_def ws_receiver_message_def new_task_world_def)

text \<open>
  A string of digits has no whitespace to strip; a number followed by a no-break space
  and preceded by an ideographic space has.
\<close>

lemma whitespace_ends:
  "t \<in> set whitespace \<Longrightarrow> t \<noteq> [] \<and> \<not> is_digit (hd t) \<and> \<not> is_digit (last t)"
  by (auto simp: whitespace_def utf8_def is_digit_def)

lemma token_at_start_other:
  assumes "\<And>t. t \<in> set tokens \<Longrightarrow> t \<noteq> [] \<and> hd t \<noteq> c"
  shows "token_at_start tokens (c # cs) = 0"
proof -
  have "filter (\<lambda>t. take (length t) (c # cs) = t) tokens = []"
  proof (rule ccontr)
    assume "filter (\<lambda>t. take (length t) (c # cs) = t) tokens \<noteq> []"
    then obtain t where t: "t \<in> set tokens" "take (length t) (c # cs) = t"
      by (auto simp: filter_empty_conv)
    from assms [OF t(1)] obtain a t' where "t = a # t'" "a \<noteq> c"
      by (cases t) auto
    with t(2) show False
      by simp
  qed
  then show ?thesis
    by (simp add: token_at_start_def)
qed

lemma strip_start_digit:
  assumes "is_digit c"
  shows "strip_start whitespace (c # cs) = c # cs"
    and "strip_start (map rev whitespace) (c # cs) = c # cs"
proof -
  have "token_at_start whitespace (c # cs) = 0"
    using assms whitespace_ends by (intro token_at_start_other) auto
  then show "strip_start whitespace (c # cs) = c # cs"
    by (simp add: strip_start.simps [of whitespace])
  have "token_at_start (map rev whitespace) (c # cs) = 0"
    using assms whitespace_ends by (intro token_at_start_other) (auto simp: hd_rev)
  then show "strip_start (map rev whitespace) (c # cs) = c # cs"
    by (simp add: strip_start.simps [of "map rev whitespace"])
qed

lemma py_strip_number: "is_number s \<Longrightarrow> py_strip s = s"
proof -
  assume n: "is_number s"
  then obtain c cs where s: "s = c # cs" and c: "is_digit c"
    by (cases s) (auto simp: is_number_def)
  from s obtain d ds where r: "rev s = d # ds"
    by (cases "rev s") auto
  then have "d \<in> set s"
    by (metis list.set_intros(1) set_rev)
  with n have "is_digit d"
    by (auto simp: is_number_def list_all_iff)
  then have "strip_start (map rev whitespace) (d # ds) = d # ds"
    by (rule strip_start_digit(2))
  with r have "rev (strip_start (map rev whitespace) (rev s)) = s"
    by (metis rev_rev_ident)
  moreover from c s have "strip_start whitespace s = s"
    by (simp add: strip_start_digit(1))
  ultimately show ?thesis
    by (simp add: py_strip_def)
qed

lemma py_strip_unicode:
  "py_strip (utf8 [227, 128, 128] @ [char_of (9 :: nat)] @ ''1'' @ utf8 [194, 160] @ '' '') = ''1''"
  by code_simp










lemma get_prompts_plain_server [simp]:
  "get_prompts (prompts plain_server) ''en'' prompt_id data = prompt_error_message_en"
  by (simp add: get_prompts_fallback plain_server_def lookup_prompt_def prompt_error_message_def)

lemmas worker_defs =
  ws_runtime_def new_session_def ws_llm_worker.simps worker_turn_def chat_in_blank_page_def
  chat_in_editor_def ask_intent_def edit_photo_def crop_rotate_def adjust_by_prompt_def
  original_setup_of_def apply_adjustments_def switch_lang_by_message_def
  last_message_of_def get_last_message_def stream_not_understand_def stream_template_def
  discard_def conversation_of_def get_conversation_def conversation_line_def
  default_role_names_def default_role_names_en_def response_from_llm_def
  py_strip_number is_number_def is_digit_def py_int_def int_of_def







text \<open>
  C5 fails on the code. A session from its start: a \<^verbatim>\<open>Chat\<close> action for the editor
  arrives with a setup; while the intent request of \<open>chat_in_editor\<close> is in flight, two
  more inbound frames with an action arrive (the first sets the status to Interrupt, the
  second to NewTask); the backend answers \<^verbatim>\<open>4\<close>. The test for Interrupt passes,
  \<open>edit_photo\<close> runs and issues its generation request while the status is NewTask.
\<close>

definition editor_chat :: IClientChatDetails where
  "editor_chat =
     \<lparr>page = ''editor'',
      history = [\<lparr>role = ''user'', content = ''brighter'', images = None\<rparr>],
      conversation = None,
      editor_setup = Some [(''brightness'', JInt 0), (''contrast'', JInt 0),
                           (''saturation'', JInt 0)]\<rparr>"

definition edit_request :: inbound where
  "edit_request = Frame \<lparr>f_lang = None, f_fileName = None, f_images = None,
                         f_action = Some ''Chat'', f_details = Some editor_chat\<rparr>"

definition race_script :: "env_step list" where
  "race_script =
     [quiet_step\<lparr>inbound := [edit_request]\<rparr>,
      quiet_step\<lparr>inbound := [chat_frame, chat_frame],
                 http_res := HttpResponse 200 (Some (MessageStr ''4''))\<rparr>]"

theorem edit_photo_generates_in_new_task:
  "trace (snd (ws_runtime plain_server 1 race_script))
     = [Generate False prompt_error_message_en Working,
        Generate False prompt_error_message_en NewTask]
   \<and> fst (ws_runtime plain_server 1 race_script) = Blocked
   \<and> status (ci (snd (ws_runtime plain_server 1 race_script))) = NewTask"
  by (simp add: worker_defs run_defs race_script_def edit_request_def editor_chat_def
      chat_frame_def quiet_step_def)

section \<open>Properties of the copy that \<^verbatim>\<open>get_prompts\<close> returns\<close>

lemma lookup_append [simp]: "a < length h \<Longrightarrow> lookup (h @ xs) a = lookup h a"
  by (simp add: lookup_def nth_append)

lemma lookup_Some_less: "lookup h a = Some obj \<Longrightarrow> a < length h"
  by (simp add: lookup_def split: if_splits)

lemma lookup_last [simp]: "lookup (h @ [obj]) (length h) = Some obj"
  by (simp add: lookup_def)

lemma message_reach_append [simp]:
  "a < length h \<Longrightarrow> message_reach (h @ xs) a = message_reach h a"
  by (simp add: message_reach_def)

lemma between_mono:
  "list_all (\<lambda>b. n \<le> b \<and> b < k) bs \<Longrightarrow> n' \<le> n \<Longrightarrow> k \<le> k' \<Longrightarrow>
     list_all (\<lambda>b. (n' :: nat) \<le> b \<and> b < (k' :: nat)) bs"
  by (induction bs) auto

lemma copy_strings_new:
  assumes "copy_strings a h = Some (r, h')"
  shows "\<exists>xs. h' = h @ [StringsObj xs] \<and> r = length h"
  using assms
  by (auto simp: copy_strings_def alloc_def split: option.splits pyobj.splits)

lemma copy_optional_strings_new:
  assumes "copy_optional_strings r h = Some (r', h')"
  shows "\<exists>xs. h' = h @ xs \<and> (case r' of None \<Rightarrow> True | Some b \<Rightarrow> length h \<le> b \<and> b < length h')"
proof (cases r)
  case None
  with assms show ?thesis by (simp add: copy_optional_strings_def)
next
  case (Some a)
  with assms obtain b where c: "copy_strings a h = Some (b, h')" and r': "r' = Some b"
    by (auto simp: copy_optional_strings_def)
  from copy_strings_new [OF c] r' show ?thesis by auto
qed

text \<open>A copied message and what it reaches are new objects.\<close>

lemma copy_message_new:
  assumes "copy_message a h = Some (r, h')"
  shows "\<exists>xs. h' = h @ xs \<and> r < length h'
           \<and> list_all (\<lambda>b. length h \<le> b \<and> b < length h') (message_reach h' r)"
proof -
  from assms obtain ro c imgs imgs' h1 where
    l: "lookup h a = Some (MessageObj ro c imgs)"
    and o: "copy_optional_strings imgs h = Some (imgs', h1)"
    and r: "r = length h1" and h': "h' = h1 @ [MessageObj ro c imgs']"
    by (auto simp: copy_message_def alloc_def split: option.splits pyobj.splits)
  from copy_optional_strings_new [OF o] obtain xs where
    h1: "h1 = h @ xs"
    and i: "case imgs' of None \<Rightarrow> True | Some b \<Rightarrow> length h \<le> b \<and> b < length h1"
    by blast
  from r h' have "lookup h' r = Some (MessageObj ro c imgs')"
    by simp
  with i r h' h1
  have "list_all (\<lambda>b. length h \<le> b \<and> b < length h') (message_reach h' r)"
    by (cases imgs') (simp_all add: message_reach_def)
  with h1 h' r show ?thesis by simp
qed

lemma message_reach_less:
  "list_all (\<lambda>b. n \<le> b \<and> b < length h) (message_reach h r) \<Longrightarrow> r < length h"
  by (simp add: message_reach_def)

lemma copy_messages_new:
  "copy_messages as h = Some (rs, h') \<Longrightarrow>
     \<exists>xs. h' = h @ xs
       \<and> list_all (\<lambda>b. length h \<le> b \<and> b < length h') rs
       \<and> list_all (\<lambda>b. length h \<le> b \<and> b < length h') (concat (map (message_reach h') rs))"
proof (induction as arbitrary: h rs)
  case Nil
  then show ?case by simp
next
  case (Cons a as)
  from Cons.prems obtain r h1 rs' where
    m: "copy_message a h = Some (r, h1)"
    and ms: "copy_messages as h1 = Some (rs', h')" and rs: "rs = r # rs'"
    by (auto split: option.splits)
  from copy_message_new [OF m] obtain xs where h1: "h1 = h @ xs" and r: "r < length h1"
    and f: "list_all (\<lambda>b. length h \<le> b \<and> b < length h1) (message_reach h1 r)"
    by blast
  from Cons.IH [OF ms] obtain ys where h': "h' = h1 @ ys"
    and g0: "list_all (\<lambda>b. length h1 \<le> b \<and> b < length h') rs'"
    and g: "list_all (\<lambda>b. length h1 \<le> b \<and> b < length h') (concat (map (message_reach h') rs'))"
    by blast
  from r h' have "message_reach h' r = message_reach h1 r"
    by simp
  with between_mono [OF f, of "length h" "length h'"] h'
  have "list_all (\<lambda>b. length h \<le> b \<and> b < length h') (message_reach h' r)"
    by simp
  moreover from between_mono [OF g, of "length h" "length h'"] h1
  have "list_all (\<lambda>b. length h \<le> b \<and> b < length h') (concat (map (message_reach h') rs'))"
    by simp
  moreover from between_mono [OF g0, of "length h" "length h'"] h1
  have "list_all (\<lambda>b. length h \<le> b \<and> b < length h') rs'"
    by simp
  moreover from f h' have "length h \<le> r \<and> r < length h'"
    by (simp add: message_reach_def)
  ultimately show ?case
    using rs h1 h' by simp
qed

text \<open>What an address stands for does not change when the store grows.\<close>

lemma read_strings_append:
  assumes "read_strings h r = Some v"
  shows "read_strings (h @ xs) r = Some v"
proof (cases r)
  case None
  with assms show ?thesis by (simp add: read_strings_def)
next
  case (Some a)
  with assms obtain ys where l: "lookup h a = Some (StringsObj ys)" and v: "v = Some ys"
    by (auto simp: read_strings_def split: option.splits pyobj.splits)
  from l have "a < length h"
    by (rule lookup_Some_less)
  with l v Some show ?thesis
    by (simp add: read_strings_def)
qed

lemma read_message_append:
  assumes "read_message h a = Some m"
  shows "read_message (h @ xs) a = Some m"
proof -
  from assms obtain r c imgs i where l: "lookup h a = Some (MessageObj r c imgs)"
    and s: "read_strings h imgs = Some i" and m: "m = \<lparr>role = r, content = c, images = i\<rparr>"
    by (auto simp: read_message_def split: option.splits pyobj.splits)
  from l have "a < length h"
    by (rule lookup_Some_less)
  with l read_strings_append [OF s, of xs] m show ?thesis
    by (simp add: read_message_def)
qed

lemma read_messages_append:
  "read_messages h as = Some ms \<Longrightarrow> read_messages (h @ xs) as = Some ms"
proof (induction as arbitrary: ms)
  case Nil
  then show ?case by simp
next
  case (Cons a as)
  from Cons.prems obtain m ms' where m: "read_message h a = Some m"
    and r: "read_messages h as = Some ms'" and ms: "ms = m # ms'"
    by (auto split: option.splits)
  from read_message_append [OF m, of xs] Cons.IH [OF r] ms show ?case
    by simp
qed

lemma read_prompt_append:
  assumes "read_prompt h a = Some pr"
  shows "read_prompt (h @ xs) a = Some pr"
proof -
  from assms obtain ms st t m pf jp as msgs stp where
    l: "lookup h a = Some (PromptObj ms st t m pf jp)"
    and lm: "lookup h ms = Some (MessagesObj as)"
    and rm: "read_messages h as = Some msgs" and rs: "read_strings h st = Some stp"
    and pr: "pr = \<lparr>messages = msgs, stop = stp, temperature = t, model = m, prefix = pf,
                  jsonPrefix = jp\<rparr>"
    by (auto simp: read_prompt_def split: option.splits pyobj.splits)
  from l lm have "a < length h" "ms < length h"
    by (auto dest: lookup_Some_less)
  with l lm read_messages_append [OF rm, of xs] read_strings_append [OF rs, of xs] pr
  show ?thesis
    by (simp add: read_prompt_def)
qed

text \<open>\<^verbatim>\<open>deepcopy\<close> returns, and the copy stands for the value the original stands for.\<close>

lemma copy_optional_strings_read:
  assumes "read_strings h r = Some v"
  shows "\<exists>r' h'. copy_optional_strings r h = Some (r', h') \<and> read_strings h' r' = Some v"
proof (cases r)
  case None
  with assms show ?thesis
    by (simp add: copy_optional_strings_def read_strings_def)
next
  case (Some a)
  with assms obtain xs where l: "lookup h a = Some (StringsObj xs)" and v: "v = Some xs"
    by (auto simp: read_strings_def split: option.splits pyobj.splits)
  with Some show ?thesis
    by (simp add: copy_optional_strings_def copy_strings_def alloc_def read_strings_def)
qed

lemma copy_message_read:
  assumes "read_message h a = Some m"
  shows "\<exists>r h'. copy_message a h = Some (r, h') \<and> read_message h' r = Some m"
proof -
  from assms obtain ro c imgs i where l: "lookup h a = Some (MessageObj ro c imgs)"
    and s: "read_strings h imgs = Some i" and m: "m = \<lparr>role = ro, content = c, images = i\<rparr>"
    by (auto simp: read_message_def split: option.splits pyobj.splits)
  from copy_optional_strings_read [OF s] obtain imgs' h1 where
    c: "copy_optional_strings imgs h = Some (imgs', h1)" and s': "read_strings h1 imgs' = Some i"
    by blast
  from l c have "copy_message a h = Some (length h1, h1 @ [MessageObj ro c imgs'])"
    by (simp add: copy_message_def alloc_def)
  moreover from read_strings_append [OF s', of "[MessageObj ro c imgs']"] m
  have "read_message (h1 @ [MessageObj ro c imgs']) (length h1) = Some m"
    by (simp add: read_message_def)
  ultimately show ?thesis by blast
qed

lemma copy_messages_read:
  "read_messages h as = Some ms \<Longrightarrow>
     \<exists>rs h'. copy_messages as h = Some (rs, h') \<and> read_messages h' rs = Some ms \<and> distinct rs"
proof (induction as arbitrary: h ms)
  case Nil
  then show ?case by simp
next
  case (Cons a as)
  from Cons.prems obtain m ms' where m: "read_message h a = Some m"
    and r: "read_messages h as = Some ms'" and ms: "ms = m # ms'"
    by (auto split: option.splits)
  from copy_message_read [OF m] obtain b h1 where
    c: "copy_message a h = Some (b, h1)" and rb: "read_message h1 b = Some m"
    by blast
  from copy_message_new [OF c] obtain xs where h1: "h1 = h @ xs" and b: "b < length h1"
    by blast
  from read_messages_append [OF r, of xs] h1 have "read_messages h1 as = Some ms'"
    by simp
  from Cons.IH [OF this] obtain rs h' where
    cs: "copy_messages as h1 = Some (rs, h')" and rr: "read_messages h' rs = Some ms'"
    and d: "distinct rs"
    by blast
  from copy_messages_new [OF cs] obtain ys where h': "h' = h1 @ ys"
    and n: "list_all (\<lambda>b. length h1 \<le> b \<and> b < length h') rs"
    by blast
  from n b have "b \<notin> set rs"
    by (auto simp: list_all_iff)
  moreover from read_message_append [OF rb, of ys] h' have "read_message h' b = Some m"
    by simp
  moreover from c cs have "copy_messages (a # as) h = Some (b # rs, h')"
    by simp
  ultimately show ?case
    using rr d ms by simp
qed

text \<open>What \<open>copy_prompt\<close> returns reaches new objects only; the store has grown.\<close>

lemma copy_prompt_new:
  assumes "copy_prompt a h = Some (p, h')"
  shows "\<exists>xs ms st t m pf jp as.
           h' = h @ xs
           \<and> lookup h' p = Some (PromptObj ms st t m pf jp)
           \<and> lookup h' ms = Some (MessagesObj as)
           \<and> list_all (\<lambda>b. length h \<le> b \<and> b < length h') as
           \<and> list_all (\<lambda>b. length h \<le> b \<and> b < length h') (prompt_reach h' p)"
proof -
  from assms obtain ms st t m pf jp as as' h1 st' h3 where
    c: "copy_messages as h = Some (as', h1)"
    and o: "copy_optional_strings st (h1 @ [MessagesObj as']) = Some (st', h3)"
    and p: "p = length h3" and h': "h' = h3 @ [PromptObj (length h1) st' t m pf jp]"
    by (auto simp: copy_prompt_def alloc_def split: option.splits pyobj.splits)
  from copy_messages_new [OF c] obtain xs where h1: "h1 = h @ xs"
    and f0: "list_all (\<lambda>b. length h \<le> b \<and> b < length h1) as'"
    and f: "list_all (\<lambda>b. length h \<le> b \<and> b < length h1) (concat (map (message_reach h1) as'))"
    by blast
  from copy_optional_strings_new [OF o] obtain ys where h3: "h3 = (h1 @ [MessagesObj as']) @ ys"
    and s: "case st' of None \<Rightarrow> True
            | Some b \<Rightarrow> length (h1 @ [MessagesObj as']) \<le> b \<and> b < length h3"
    by blast
  have lp: "lookup h' p = Some (PromptObj (length h1) st' t m pf jp)"
    using p h' by simp
  have lm: "lookup h' (length h1) = Some (MessagesObj as')"
    using h' h3 by (simp add: lookup_def nth_append)
  have in_h1: "b < length h1" if "b \<in> set as'" for b
    using f0 that by (simp add: list_all_iff)
  have same: "message_reach h' b = message_reach h1 b" if "b \<in> set as'" for b
    using in_h1 [OF that] h' h3 by simp
  then have "concat (map (message_reach h') as') = concat (map (message_reach h1) as')"
    by (simp cong: map_cong)
  with between_mono [OF f, of "length h" "length h'"] h' h3
  have fm: "list_all (\<lambda>b. length h \<le> b \<and> b < length h') (concat (map (message_reach h') as'))"
    by simp
  from between_mono [OF f0, of "length h" "length h'"] h' h3
  have fa: "list_all (\<lambda>b. length h \<le> b \<and> b < length h') as'"
    by simp
  have fs: "list_all (\<lambda>b. length h \<le> b \<and> b < length h')
              (case st' of Some s \<Rightarrow> [s] | None \<Rightarrow> [])"
    using s h1 h' h3 by (cases st') auto
  have "prompt_reach h' p
      = p # length h1 # (case st' of Some s \<Rightarrow> [s] | None \<Rightarrow> [])
          @ concat (map (message_reach h') as')"
    using lp lm by (simp add: prompt_reach_def)
  moreover have "length h \<le> p \<and> p < length h'" "length h \<le> length h1 \<and> length h1 < length h'"
    using p h' h3 h1 by simp_all
  ultimately have "list_all (\<lambda>b. length h \<le> b \<and> b < length h') (prompt_reach h' p)"
    using fm fs by simp
  moreover have "h' = h @ (xs @ [MessagesObj as'] @ ys @ [PromptObj (length h1) st' t m pf jp])"
    using h' h3 h1 by simp
  ultimately show ?thesis
    using lp lm fa by blast
qed

lemma copy_prompt_read:
  assumes "read_prompt h a = Some pr"
  shows "\<exists>p h' ms st as.
           copy_prompt a h = Some (p, h')
           \<and> lookup h' p
               = Some (PromptObj ms st (temperature pr) (model pr) (prefix pr) (jsonPrefix pr))
           \<and> lookup h' ms = Some (MessagesObj as)
           \<and> read_messages h' as = Some (messages pr)
           \<and> read_strings h' st = Some (stop pr)
           \<and> distinct as"
proof -
  from assms obtain ms st t m pf jp as msgs stp where
    l: "lookup h a = Some (PromptObj ms st t m pf jp)"
    and lm: "lookup h ms = Some (MessagesObj as)"
    and rm: "read_messages h as = Some msgs" and rs: "read_strings h st = Some stp"
    and pr: "pr = \<lparr>messages = msgs, stop = stp, temperature = t, model = m, prefix = pf,
                  jsonPrefix = jp\<rparr>"
    by (auto simp: read_prompt_def split: option.splits pyobj.splits)
  from copy_messages_read [OF rm] obtain as' h1 where
    c: "copy_messages as h = Some (as', h1)" and rm1: "read_messages h1 as' = Some msgs"
    and d: "distinct as'"
    by blast
  from copy_messages_new [OF c] obtain xs where h1: "h1 = h @ xs"
    by blast
  let ?h2 = "h1 @ [MessagesObj as']"
  from read_strings_append [OF rs, of "xs @ [MessagesObj as']"] h1
  have "read_strings ?h2 st = Some stp"
    by simp
  from copy_optional_strings_read [OF this] obtain st' h3 where
    o: "copy_optional_strings st ?h2 = Some (st', h3)" and rs3: "read_strings h3 st' = Some stp"
    by blast
  from copy_optional_strings_new [OF o] obtain ys where h3: "h3 = ?h2 @ ys"
    by blast
  let ?P = "PromptObj (length h1) st' t m pf jp"
  let ?h' = "h3 @ [?P]"
  from l lm c o have "copy_prompt a h = Some (length h3, ?h')"
    by (simp add: copy_prompt_def alloc_def)
  moreover have "lookup ?h' (length h3) = Some ?P"
    by simp
  moreover have "lookup ?h' (length h1) = Some (MessagesObj as')"
    using h3 by (simp add: lookup_def nth_append)
  moreover from read_messages_append [OF rm1, of "[MessagesObj as'] @ ys @ [?P]"] h3
  have "read_messages ?h' as' = Some msgs"
    by simp
  moreover from read_strings_append [OF rs3, of "[?P]"]
  have "read_strings ?h' st' = Some stp" .
  ultimately show ?thesis
    using d pr by auto
qed

text \<open>
  The loop over the messages assigns the content of each message and nothing else:
  no object is added, the lists of strings and the objects that are no message of the
  loop are as before.
\<close>

lemma lookup_update:
  "lookup (h[a := obj]) b = (if b = a \<and> a < length h then Some obj else lookup h b)"
  by (simp add: lookup_def)

lemma read_strings_update:
  assumes "lookup h a = Some (MessageObj r c i)"
  shows "read_strings (h[a := MessageObj r c' i]) x = read_strings h x"
  using assms by (cases x) (auto simp: read_strings_def lookup_update)

lemma read_message_update:
  assumes "lookup h a = Some (MessageObj r c i)" and "b \<noteq> a"
  shows "read_message (h[a := MessageObj r c' i]) b = read_message h b"
  using assms
  by (simp add: read_message_def lookup_update read_strings_update [OF assms(1)]
      cong: option.case_cong pyobj.case_cong)

lemma read_messages_update:
  assumes "lookup h a = Some (MessageObj r c i)"
  shows "a \<notin> set as \<Longrightarrow> read_messages (h[a := MessageObj r c' i]) as = read_messages h as"
  by (induction as) (auto simp: read_message_update [OF assms] cong: option.case_cong)

lemma message_reach_update:
  assumes "lookup h a = Some (MessageObj r c i)"
  shows "message_reach (h[a := MessageObj r c' i]) b = message_reach h b"
  using assms by (auto simp: message_reach_def lookup_update)

lemma render_in_place_read:
  "read_messages h as = Some ms \<Longrightarrow> distinct as \<Longrightarrow>
     \<exists>h'. render_in_place data as h = Some h'
       \<and> read_messages h' as
           = Some (map (\<lambda>msg. msg\<lparr>content := render_content data (content msg)\<rparr>) ms)
       \<and> length h' = length h
       \<and> (\<forall>b. b \<notin> set as \<longrightarrow> lookup h' b = lookup h b)
       \<and> (\<forall>x. read_strings h' x = read_strings h x)
       \<and> (\<forall>b. message_reach h' b = message_reach h b)"
proof (induction as arbitrary: h ms)
  case Nil
  then show ?case by auto
next
  case (Cons a as)
  from Cons.prems obtain m ms' where m: "read_message h a = Some m"
    and r: "read_messages h as = Some ms'" and ms: "ms = m # ms'"
    by (auto split: option.splits)
  from m obtain ro c imgs i where l: "lookup h a = Some (MessageObj ro c imgs)"
    and s: "read_strings h imgs = Some i" and m': "m = \<lparr>role = ro, content = c, images = i\<rparr>"
    by (auto simp: read_message_def split: option.splits pyobj.splits)
  from Cons.prems have na: "a \<notin> set as" and d: "distinct as"
    by simp_all
  let ?c = "render_content data c"
  let ?hu = "h[a := MessageObj ro ?c imgs]"
  from l have al: "a < length h"
    by (rule lookup_Some_less)
  from read_messages_update [OF l na] r have "read_messages ?hu as = Some ms'"
    by simp
  from Cons.IH [OF this d] obtain h' where
    1: "render_in_place data as ?hu = Some h'"
    and 2: "read_messages h' as
          = Some (map (\<lambda>msg. msg\<lparr>content := render_content data (content msg)\<rparr>) ms')"
    and 3: "length h' = length ?hu"
    and 4: "\<forall>b. b \<notin> set as \<longrightarrow> lookup h' b = lookup ?hu b"
    and 5: "\<forall>x. read_strings h' x = read_strings ?hu x"
    and 6: "\<forall>b. message_reach h' b = message_reach ?hu b"
    by blast
  from l 1 have "render_in_place data (a # as) h = Some h'"
    by simp
  moreover from 4 na al have "lookup h' a = Some (MessageObj ro ?c imgs)"
    by (simp add: lookup_update)
  with 5 s m' have "read_message h' a = Some (m\<lparr>content := render_content data (content m)\<rparr>)"
    by (simp add: read_message_def read_strings_update [OF l])
  with 2 ms have "read_messages h' (a # as)
      = Some (map (\<lambda>msg. msg\<lparr>content := render_content data (content msg)\<rparr>) ms)"
    by simp
  moreover from 3 have "length h' = length h"
    by simp
  moreover from 4 have "\<forall>b. b \<notin> set (a # as) \<longrightarrow> lookup h' b = lookup h b"
    by (simp add: lookup_update)
  moreover from 5 have "\<forall>x. read_strings h' x = read_strings h x"
    by (simp add: read_strings_update [OF l])
  moreover from 6 have "\<forall>b. message_reach h' b = message_reach h b"
    by (simp add: message_reach_update [OF l])
  ultimately show ?case
    by blast
qed

lemma read_messages_lookup:
  "read_messages h as = Some ms \<Longrightarrow> b \<in> set as \<Longrightarrow> \<exists>r c i. lookup h b = Some (MessageObj r c i)"
proof (induction as arbitrary: ms)
  case Nil
  then show ?case by simp
next
  case (Cons a as)
  from Cons.prems(1) obtain m ms' where m: "read_message h a = Some m"
    and r: "read_messages h as = Some ms'"
    by (auto split: option.splits)
  from m obtain ro c imgs where "lookup h a = Some (MessageObj ro c imgs)"
    by (auto simp: read_message_def split: option.splits pyobj.splits)
  with Cons.IH [OF r] Cons.prems(2) show ?case
    by auto
qed

text \<open>
  \<open>get_prompts_store\<close> on a store that holds a prompt at the source: it returns, the
  store it leaves is the store it was given followed by new objects, the prompt it
  returns stands for the rendered prompt and reaches new objects only.
\<close>

lemma get_prompts_store_copy:
  assumes "read_prompt h (prompt_source cat error_en error_zh lng prompt_id) = Some pr"
  shows "\<exists>p h' xs.
           get_prompts_store cat error_en error_zh lng prompt_id data h = Some (p, h')
           \<and> h' = h @ xs
           \<and> read_prompt h' p
               = Some (pr\<lparr>messages :=
                   map (\<lambda>msg. msg\<lparr>content := render_content data (content msg)\<rparr>) (messages pr)\<rparr>)
           \<and> list_all (\<lambda>a. length h \<le> a \<and> a < length h') (prompt_reach h' p)"
proof -
  let ?src = "prompt_source cat error_en error_zh lng prompt_id"
  let ?render = "\<lambda>msg. msg\<lparr>content := render_content data (content msg)\<rparr>"
  from copy_prompt_read [OF assms] obtain p h1 ms st as where
    cp: "copy_prompt ?src h = Some (p, h1)"
    and lp: "lookup h1 p
           = Some (PromptObj ms st (temperature pr) (model pr) (prefix pr) (jsonPrefix pr))"
    and lm: "lookup h1 ms = Some (MessagesObj as)"
    and rm: "read_messages h1 as = Some (messages pr)"
    and rs: "read_strings h1 st = Some (stop pr)"
    and d: "distinct as"
    by blast
  from copy_prompt_new [OF cp] lp lm obtain xs where h1: "h1 = h @ xs"
    and fa: "list_all (\<lambda>b. length h \<le> b \<and> b < length h1) as"
    and fr: "list_all (\<lambda>b. length h \<le> b \<and> b < length h1) (prompt_reach h1 p)"
    by auto
  from render_in_place_read [OF rm d, of data] obtain h2 where
    ren: "render_in_place data as h1 = Some h2"
    and rm2: "read_messages h2 as = Some (map ?render (messages pr))"
    and len: "length h2 = length h1"
    and out: "\<forall>b. b \<notin> set as \<longrightarrow> lookup h2 b = lookup h1 b"
    and rs2: "\<forall>x. read_strings h2 x = read_strings h1 x"
    and mr: "\<forall>b. message_reach h2 b = message_reach h1 b"
    by blast
  have "p \<notin> set as"
  proof
    assume "p \<in> set as"
    from read_messages_lookup [OF rm this] lp show False
      by simp
  qed
  moreover have "ms \<notin> set as"
  proof
    assume "ms \<in> set as"
    from read_messages_lookup [OF rm this] lm show False
      by simp
  qed
  ultimately have "p \<notin> set as" "ms \<notin> set as" .
  with out lp lm
  have lp2: "lookup h2 p
           = Some (PromptObj ms st (temperature pr) (model pr) (prefix pr) (jsonPrefix pr))"
    and lm2: "lookup h2 ms = Some (MessagesObj as)"
    by simp_all
  from cp lp lm ren
  have 1: "get_prompts_store cat error_en error_zh lng prompt_id data h = Some (p, h2)"
    by (simp add: get_prompts_store_def)
  have "take (length h) h2 = h"
  proof (rule nth_equalityI)
    show "length (take (length h) h2) = length h"
      using len h1 by simp
  next
    fix i
    assume "i < length (take (length h) h2)"
    then have i: "i < length h"
      by simp
    with fa have "i \<notin> set as"
      by (auto simp: list_all_iff)
    with out have "lookup h2 i = lookup h1 i"
      by simp
    with i len h1 have "h2 ! i = h ! i"
      by (simp add: lookup_def nth_append)
    with i show "take (length h) h2 ! i = h ! i"
      by simp
  qed
  then have "h @ drop (length h) h2 = h2"
    by (metis append_take_drop_id)
  then have 2: "h2 = h @ drop (length h) h2"
    by simp
  from lp2 lm2 rm2 rs2 rs
  have 3: "read_prompt h2 p = Some (pr\<lparr>messages := map ?render (messages pr)\<rparr>)"
    by (cases pr) (simp add: read_prompt_def)
  from mr have "message_reach h2 = message_reach h1"
    by (simp add: fun_eq_iff)
  with lp lm lp2 lm2 have "prompt_reach h2 p = prompt_reach h1 p"
    by (simp add: prompt_reach_def)
  with fr len
  have 4: "list_all (\<lambda>a. length h \<le> a \<and> a < length h2) (prompt_reach h2 p)"
    by simp
  from 1 2 3 4 show ?thesis
    by blast
qed

lemma take_update_above:
  "n \<le> a \<Longrightarrow> take n (h[a := obj]) = take n h"
  by simp

text \<open>
  C8. \<open>get_prompts\<close> returns a deep, independent copy. On a store that holds a prompt
  at the source (the prompt of the catalog for the language and the key, or the error
  template), \<open>get_prompts_store\<close> returns a prompt and a store such that: the objects
  of the store it was given, among them the catalog and the error templates, are as
  before; the prompt returned stands for the source's prompt with every content
  rendered; every object it reaches is a new one, so that a write at any of them leaves
  the objects of the given store as before; and a second call with the same arguments
  on the store the first call left returns again, leaves the objects of the first store
  and of the first result as before, and its result stands for the same rendered prompt
  and reaches objects that are none of the first result's.
\<close>

theorem get_prompts_store_independent:
  assumes "read_prompt h (prompt_source cat error_en error_zh lng prompt_id) = Some pr"
  shows "\<exists>p h'.
           get_prompts_store cat error_en error_zh lng prompt_id data h = Some (p, h')
           \<and> take (length h) h' = h
           \<and> read_prompt h' p
               = Some (pr\<lparr>messages :=
                   map (\<lambda>msg. msg\<lparr>content := render_content data (content msg)\<rparr>) (messages pr)\<rparr>)
           \<and> read_prompt h' (prompt_source cat error_en error_zh lng prompt_id) = Some pr
           \<and> list_all (\<lambda>a. length h \<le> a \<and> a < length h') (prompt_reach h' p)
           \<and> (\<forall>a obj. a \<in> set (prompt_reach h' p) \<longrightarrow> take (length h) (h'[a := obj]) = h)
           \<and> (\<exists>q h''.
                 get_prompts_store cat error_en error_zh lng prompt_id data h' = Some (q, h'')
                 \<and> take (length h) h'' = h
                 \<and> take (length h') h'' = h'
                 \<and> read_prompt h'' q = read_prompt h' p
                 \<and> read_prompt h'' (prompt_source cat error_en error_zh lng prompt_id) = Some pr
                 \<and> list_all (\<lambda>a. length h' \<le> a \<and> a < length h'') (prompt_reach h'' q))"
proof -
  let ?src = "prompt_source cat error_en error_zh lng prompt_id"
  let ?pr = "pr\<lparr>messages :=
               map (\<lambda>msg. msg\<lparr>content := render_content data (content msg)\<rparr>) (messages pr)\<rparr>"
  from get_prompts_store_copy [OF assms, of data] obtain p h' xs where
    1: "get_prompts_store cat error_en error_zh lng prompt_id data h = Some (p, h')"
    and h': "h' = h @ xs"
    and 2: "read_prompt h' p = Some ?pr"
    and 3: "list_all (\<lambda>a. length h \<le> a \<and> a < length h') (prompt_reach h' p)"
    by blast
  from h' have 4: "take (length h) h' = h"
    by simp
  from read_prompt_append [OF assms, of xs] h' have 5: "read_prompt h' ?src = Some pr"
    by simp
  have 6: "take (length h) (h'[a := obj]) = h" if "a \<in> set (prompt_reach h' p)" for a obj
  proof -
    from 3 that have "length h \<le> a"
      by (simp add: list_all_iff)
    with 4 show ?thesis
      by (simp add: take_update_above)
  qed
  from get_prompts_store_copy [OF 5, of data] obtain q h'' ys where
    7: "get_prompts_store cat error_en error_zh lng prompt_id data h' = Some (q, h'')"
    and h'': "h'' = h' @ ys"
    and 8: "read_prompt h'' q = Some ?pr"
    and 9: "list_all (\<lambda>a. length h' \<le> a \<and> a < length h'') (prompt_reach h'' q)"
    by blast
  from h'' h' have 10: "take (length h) h'' = h" and 11: "take (length h') h'' = h'"
    by simp_all
  from read_prompt_append [OF 5, of ys] h'' have 12: "read_prompt h'' ?src = Some pr"
    by simp
  from 8 2 have 13: "read_prompt h'' q = read_prompt h' p"
    by simp
  from 7 10 11 13 12 9
  have "\<exists>q h''.
          get_prompts_store cat error_en error_zh lng prompt_id data h' = Some (q, h'')
          \<and> take (length h) h'' = h
          \<and> take (length h') h'' = h'
          \<and> read_prompt h'' q = read_prompt h' p
          \<and> read_prompt h'' ?src = Some pr
          \<and> list_all (\<lambda>a. length h' \<le> a \<and> a < length h'') (prompt_reach h'' q)"
    by blast
  with 1 4 2 5 3 6 show ?thesis
    by blast
qed

text \<open>
  A store with a catalog of one prompt (English, \<^verbatim>\<open>welcome\<close>: two messages, the first
  with an image, and a stop word) at the addresses 0 to 5, and the two error templates at
  the addresses 6 to 8 and 9 to 11.
\<close>

definition example_store :: store where
  "example_store =
     [StringsObj [''pic.png''],
      MessageObj ''system'' ''Greet {name} with {{ok}}.'' (Some 0),
      MessageObj ''user'' ''hi'' None,
      MessagesObj [1, 2],
      StringsObj [''.''],
      PromptObj 3 (Some 4) (Some ''0.2'') None None None,
      MessageObj ''system'' ''Tell someone that you've experienced an error.'' None,
      MessagesObj [6],
      PromptObj 7 None None None None None,
      MessageObj ''system'' ''Tell someone in Chinese that you've experienced an error.'' None,
      MessagesObj [9],
      PromptObj 10 None None None None None]"

definition example_refs :: catalog_refs where
  "example_refs =
     (\<lambda>l. if l = ''en'' then Some (\<lambda>k. if k = ''welcome'' then Some 5 else None) else None)"

definition example_data :: variables where
  "example_data = Some (\<lambda>k. if k = ''name'' then Some ''Ann'' else None)"

definition example_prompt :: IChatPrompt where
  "example_prompt =
     \<lparr>messages = [\<lparr>role = ''system'', content = ''Greet {name} with {{ok}}.'',
                    images = Some [''pic.png'']\<rparr>,
                  \<lparr>role = ''user'', content = ''hi'', images = None\<rparr>],
      stop = Some [''.''], temperature = Some ''0.2'', model = None, prefix = None,
      jsonPrefix = None\<rparr>"

definition example_result :: store where
  "example_result =
     example_store @
     [StringsObj [''pic.png''],
      MessageObj ''system'' ''Greet Ann with {ok}.'' (Some 12),
      MessageObj ''user'' ''hi'' None,
      MessagesObj [13, 14],
      StringsObj [''.''],
      PromptObj 15 (Some 16) (Some ''0.2'') None None None]"

lemma example_store_read:
  "read_prompt example_store (prompt_source example_refs 8 11 ''en'' ''welcome'')
     = Some example_prompt"
  by code_simp

lemma example_store_call:
  "get_prompts_store example_refs 8 11 ''en'' ''welcome'' example_data example_store
     = Some (17, example_result)"
  by code_simp

lemma example_result_reach:
  "prompt_reach example_result 17 = [17, 15, 16, 13, 12, 14]"
  by code_simp

lemma example_prompt_rendered:
  "example_prompt\<lparr>messages :=
      map (\<lambda>msg. msg\<lparr>content := render_content example_data (content msg)\<rparr>)
        (messages example_prompt)\<rparr>
   = example_prompt\<lparr>messages :=
       [\<lparr>role = ''system'', content = ''Greet Ann with {ok}.'', images = Some [''pic.png'']\<rparr>,
        \<lparr>role = ''user'', content = ''hi'', images = None\<rparr>]\<rparr>"
  by code_simp

lemma example_lengths: "length example_store = 12" "length example_result = 18"
  by (simp_all add: example_store_def example_result_def)

theorem get_prompts_store_independent_witness:
  "get_prompts_store example_refs 8 11 ''en'' ''welcome'' example_data example_store
     = Some (17, example_result)
   \<and> take 12 example_result = example_store
   \<and> read_prompt example_result 17
       = Some (example_prompt\<lparr>messages :=
           [\<lparr>role = ''system'', content = ''Greet Ann with {ok}.'',
             images = Some [''pic.png'']\<rparr>,
            \<lparr>role = ''user'', content = ''hi'', images = None\<rparr>]\<rparr>)
   \<and> read_prompt example_result 5 = Some example_prompt
   \<and> take 12 (example_result[13 := MessageObj ''user'' ''changed'' None]) = example_store
   \<and> (\<exists>q h''.
         get_prompts_store example_refs 8 11 ''en'' ''welcome'' example_data example_result
           = Some (q, h'')
         \<and> take 12 h'' = example_store
         \<and> take 18 h'' = example_result
         \<and> read_prompt h'' q = read_prompt example_result 17
         \<and> read_prompt h'' 5 = Some example_prompt)"
proof -
  have src: "prompt_source example_refs 8 11 ''en'' ''welcome'' = 5"
    by code_simp
  from get_prompts_store_independent [OF example_store_read, of example_data]
  obtain p h' where
    1: "get_prompts_store example_refs 8 11 ''en'' ''welcome'' example_data example_store
          = Some (p, h')"
    and 2: "take (length example_store) h' = example_store"
    and 3: "read_prompt h' p
          = Some (example_prompt\<lparr>messages :=
              map (\<lambda>msg. msg\<lparr>content := render_content example_data (content msg)\<rparr>)
                (messages example_prompt)\<rparr>)"
    and 4: "read_prompt h' (prompt_source example_refs 8 11 ''en'' ''welcome'')
          = Some example_prompt"
    and 5: "\<forall>a obj. a \<in> set (prompt_reach h' p) \<longrightarrow>
              take (length example_store) (h'[a := obj]) = example_store"
    and 6: "\<exists>q h''.
              get_prompts_store example_refs 8 11 ''en'' ''welcome'' example_data h'
                = Some (q, h'')
              \<and> take (length example_store) h'' = example_store
              \<and> take (length h') h'' = h'
              \<and> read_prompt h'' q = read_prompt h' p
              \<and> read_prompt h'' (prompt_source example_refs 8 11 ''en'' ''welcome'')
                  = Some example_prompt
              \<and> list_all (\<lambda>a. length h' \<le> a \<and> a < length h'') (prompt_reach h'' q)"
    by blast
  from 1 have p: "p = 17" and h': "h' = example_result"
    by (simp_all add: example_store_call)
  from 2 h' have a: "take 12 example_result = example_store"
    by (simp add: example_lengths)
  from 3 p h' have b: "read_prompt example_result 17
       = Some (example_prompt\<lparr>messages :=
           [\<lparr>role = ''system'', content = ''Greet Ann with {ok}.'',
             images = Some [''pic.png'']\<rparr>,
            \<lparr>role = ''user'', content = ''hi'', images = None\<rparr>]\<rparr>)"
    by (simp only: example_prompt_rendered)
  from 4 h' have c: "read_prompt example_result 5 = Some example_prompt"
    by (simp only: src)
  have "13 \<in> set (prompt_reach example_result 17)"
    by (simp add: example_result_reach)
  with 5 p h'
  have d: "take 12 (example_result[13 := MessageObj ''user'' ''changed'' None]) = example_store"
    by (simp only: example_lengths)
  from 6 p h' have e: "\<exists>q h''.
         get_prompts_store example_refs 8 11 ''en'' ''welcome'' example_data example_result
           = Some (q, h'')
         \<and> take 12 h'' = example_store
         \<and> take 18 h'' = example_result
         \<and> read_prompt h'' q = read_prompt example_result 17
         \<and> read_prompt h'' 5 = Some example_prompt"
    by (simp only: example_lengths src) blast
  from example_store_call a b c d e show ?thesis
    by (intro conjI)
qed

end
